theory Spec2Isabelle
  imports Complex_Main
begin

section \<open>Layout strategy selection\<close>

text \<open>
  \<^verbatim>\<open>EnhancedPowerPointGenerator._determine_layout_strategy\<close>
  (modules/enhanced_powerpoint_generator.py). The four arguments are used only for their
  truth value, so they are booleans here; the result is the tag string the method returns.
\<close>

definition determine_layout_strategy :: "bool \<Rightarrow> bool \<Rightarrow> bool \<Rightarrow> bool \<Rightarrow> string" where
  "determine_layout_strategy has_charts has_diagrams has_content has_image =
     (if has_charts \<and> has_diagrams then ''mixed_media''
      else if has_charts \<and> has_content then ''charts_and_content''
      else if has_diagrams \<and> has_content then ''diagrams_and_content''
      else if has_charts then ''charts_only''
      else if has_diagrams then ''diagrams_only''
      else if has_image \<and> has_content then ''image_and_content''
      else ''content_only'')"

section \<open>Responsive font sizes\<close>

text \<open>
  \<^verbatim>\<open>ResponsiveFontManager\<close> (modules/enhanced_powerpoint_generator.py). The slide
  dimensions and the scale factor are Python floats; they are exact rationals here.
  \<open>py_int\<close> is Python's \<^verbatim>\<open>int()\<close> on a float: truncation towards zero.
\<close>

definition py_int :: "rat \<Rightarrow> int" where
  "py_int x = (if 0 \<le> x then \<lfloor>x\<rfloor> else \<lceil>x\<rceil>)"

record font_sizes =
  presentation_title :: int
  slide_title :: int
  subtitle :: int
  heading :: int
  content_large :: int
  content_normal :: int
  content_small :: int
  bullet_main :: int
  bullet_sub :: int
  caption :: int

record font_manager =
  slide_width :: rat
  slide_height :: rat
  scale_factor :: rat
  sizes :: font_sizes

text \<open>
  The constructor together with \<^verbatim>\<open>_calculate_base_sizes\<close>: every entry is the
  truncated scaled constant, then raised to the 10pt minimum by the loop over the table.
\<close>

definition calculate_base_sizes :: "rat \<Rightarrow> rat \<Rightarrow> font_manager" where
  "calculate_base_sizes w h =
     (let width_factor = w / 10;
          height_factor = h / (15 / 2);
          sf = min width_factor height_factor
      in \<lparr> slide_width = w, slide_height = h, scale_factor = sf,
           sizes = \<lparr> presentation_title = max (py_int (36 * sf)) 10,
                     slide_title = max (py_int (28 * sf)) 10,
                     subtitle = max (py_int (20 * sf)) 10,
                     heading = max (py_int (18 * sf)) 10,
                     content_large = max (py_int (16 * sf)) 10,
                     content_normal = max (py_int (14 * sf)) 10,
                     content_small = max (py_int (12 * sf)) 10,
                     bullet_main = max (py_int (15 * sf)) 10,
                     bullet_sub = max (py_int (13 * sf)) 10,
                     caption = max (py_int (10 * sf)) 10 \<rparr> \<rparr>)"

definition get_title_size :: "font_manager \<Rightarrow> int \<Rightarrow> int" where
  "get_title_size fm text_length =
     (let base_size = slide_title (sizes fm)
      in if text_length > 80 then max (base_size - 4) 20
         else if text_length > 50 then max (base_size - 2) 22
         else base_size)"

definition get_content_size :: "font_manager \<Rightarrow> int \<Rightarrow> string \<Rightarrow> int" where
  "get_content_size fm text_length content_type =
     (let base_size = (if content_type = ''detailed'' then content_large (sizes fm)
                       else if content_type = ''heading'' then heading (sizes fm)
                       else content_normal (sizes fm))
      in if text_length > 500 then max (base_size - 3) 11
         else if text_length > 300 then max (base_size - 2) 12
         else if text_length > 150 then max (base_size - 1) 13
         else base_size)"

text \<open>
  \<^verbatim>\<open>get_bullet_size\<close>: the second adjustment is an \<^verbatim>\<open>if > 100 ... elif > 150\<close>
  chain in the source, kept in that order.
\<close>

definition get_bullet_size :: "font_manager \<Rightarrow> int \<Rightarrow> int \<Rightarrow> int" where
  "get_bullet_size fm bullet_count avg_bullet_length =
     (let base_size = bullet_main (sizes fm);
          base_size = (if bullet_count > 8 then base_size - 2
                       else if bullet_count > 6 then base_size - 1
                       else base_size);
          base_size = (if avg_bullet_length > 100 then base_size - 1
                       else if avg_bullet_length > 150 then base_size - 2
                       else base_size)
      in max base_size 11)"

section \<open>Python strings\<close>

text \<open>
  A Python \<^verbatim>\<open>str\<close> is a sequence of Unicode code points, so a string is a list of
  natural numbers here and \<^verbatim>\<open>len\<close> is \<open>length\<close>. \<open>ascii\<close> turns an ASCII
  literal into that form. \<open>py_isspace\<close> is the set of code points for which
  \<^verbatim>\<open>str.isspace\<close> holds; \<^verbatim>\<open>str.split()\<close>, \<^verbatim>\<open>str.strip()\<close> and the
  regular expression class \<^verbatim>\<open>\s\<close> all use it.
\<close>

type_synonym pystr = "nat list"

definition ascii :: "string \<Rightarrow> pystr" where
  "ascii s = map of_char s"

definition py_isspace :: "nat \<Rightarrow> bool" where
  "py_isspace c =
     ((9 \<le> c \<and> c \<le> 13) \<or> (28 \<le> c \<and> c \<le> 32) \<or> c = 133 \<or> c = 160 \<or> c = 5760
      \<or> (8192 \<le> c \<and> c \<le> 8202) \<or> c = 8232 \<or> c = 8233 \<or> c = 8239 \<or> c = 8287
      \<or> c = 12288)"

definition py_strip :: "pystr \<Rightarrow> pystr" where
  "py_strip s = rev (dropWhile py_isspace (rev (dropWhile py_isspace s)))"

text \<open>\<^verbatim>\<open>str.split()\<close>: the maximal runs of non-space code points, in order.\<close>

fun split_words :: "pystr \<Rightarrow> pystr \<Rightarrow> pystr list" where
  "split_words cur [] = (if cur = [] then [] else [cur])"
| "split_words cur (c # cs) =
     (if py_isspace c then (if cur = [] then split_words [] cs else cur # split_words [] cs)
      else split_words (cur @ [c]) cs)"

definition py_split :: "pystr \<Rightarrow> pystr list" where
  "py_split s = split_words [] s"

text \<open>
  \<^verbatim>\<open>str.lower()\<close> on the ASCII letters; other code points are left as they are, which is
  what Python does for every code point without a lowercase mapping. Uppercase letters
  outside ASCII are not covered by this definition.
\<close>

definition py_lower :: "pystr \<Rightarrow> pystr" where
  "py_lower s = map (\<lambda>c. if 65 \<le> c \<and> c \<le> 90 then c + 32 else c) s"

text \<open>The digits \<^verbatim>\<open>0\<close> to \<^verbatim>\<open>9\<close>; digits of other scripts are not covered.\<close>

definition is_digit :: "nat \<Rightarrow> bool" where
  "is_digit c = (48 \<le> c \<and> c \<le> 57)"

text \<open>\<^verbatim>\<open>keyword in text\<close>: the keyword occurs as a contiguous run.\<close>

fun contains :: "pystr \<Rightarrow> pystr \<Rightarrow> bool" where
  "contains k [] = (k = [])"
| "contains k (c # cs) = (take (length k) (c # cs) = k \<or> contains k cs)"

text \<open>\<^verbatim>\<open>str(n)\<close> for a non-negative integer.\<close>

fun str_nat :: "nat \<Rightarrow> pystr" where
  "str_nat n = (if n < 10 then [48 + n] else str_nat (n div 10) @ [48 + n mod 10])"

section \<open>Python floats\<close>

text \<open>
  A Python float is an IEEE 754 binary64 number, and an arithmetic operation on floats
  returns the exact result rounded to the nearest such number, a tie going to the even
  significand. Every finite double is a rational number, so the floats of the refiner are
  rationals here and \<open>double\<close> is the rounding. For a positive \<open>x\<close>, \<open>exponent x\<close> is the
  integer \<open>e\<close> with \<^verbatim>\<open>2**e <= x < 2**(e+1)\<close>; the doubles between these two powers are
  the multiples of \<^verbatim>\<open>2**(e-52)\<close>, and \<open>round_half_even\<close> chooses the nearest multiple.
  \<open>bit_length\<close> is \<^verbatim>\<open>int.bit_length\<close>. A float literal such as \<^verbatim>\<open>0.1\<close> is
  \<open>double (1 / 10)\<close>. Overflow (above about 1.8e308) and the subnormal numbers (below about
  2.2e-308) are left out: the scores, sums and quotients of the refiner do not come near
  either.
\<close>

fun bit_length :: "nat \<Rightarrow> nat" where
  "bit_length n = (if n = 0 then 0 else Suc (bit_length (n div 2)))"

definition exponent :: "rat \<Rightarrow> int" where
  "exponent x = (if 1 \<le> x then int (bit_length (nat \<lfloor>x\<rfloor>)) - 1
                 else - int (bit_length (nat (\<lceil>1 / x\<rceil> - 1))))"

definition round_half_even :: "rat \<Rightarrow> int" where
  "round_half_even x =
     (let f = \<lfloor>x\<rfloor>; d = x - of_int f
      in if d < 1 / 2 then f else if 1 / 2 < d then f + 1 else if even f then f else f + 1)"

definition double :: "rat \<Rightarrow> rat" where
  "double x =
     (if x = 0 then 0
      else let ulp = 2 powi (exponent \<bar>x\<bar> - 52)
           in sgn x * of_int (round_half_even (\<bar>x\<bar> / ulp)) * ulp)"

text \<open>Float addition, subtraction and division; the divisor is never zero where they are used.\<close>

definition fadd :: "rat \<Rightarrow> rat \<Rightarrow> rat" where
  "fadd x y = double (x + y)"

definition fsub :: "rat \<Rightarrow> rat \<Rightarrow> rat" where
  "fsub x y = double (x - y)"

definition fdiv :: "rat \<Rightarrow> rat \<Rightarrow> rat" where
  "fdiv x y = double (x / y)"

section \<open>Content quality refiner\<close>

text \<open>
  \<^verbatim>\<open>BertContentRefiner\<close> (modules/bert_refiner.py). Scores are Python floats: doubles,
  with the rounded operations above. The two reason texts are the Vietnamese literals of
  the source.
\<close>

datatype error = IndexError | KeyError

record text_analysis =
  score :: rat
  action :: string
  reason :: pystr

definition reason_too_long :: pystr where
  "reason_too_long = [86, 259, 110, 32, 98, 7843, 110, 32, 113, 117, 225, 32, 100, 224, 105,
     32, 99, 104, 111, 32, 109, 7897, 116, 32, 115, 108, 105, 100, 101, 44, 32, 99, 7847, 110,
     32, 114, 250, 116, 32, 103, 7885, 110, 46]"

definition reason_complex_words :: pystr where
  "reason_complex_words = [83, 7917, 32, 100, 7909, 110, 103, 32, 110, 104, 105, 7873, 117,
     32, 116, 7915, 32, 112, 104, 7913, 99, 32, 116, 7841, 112, 44, 32, 99, 7847, 110, 32, 108,
     224, 109, 32, 114, 245, 32, 114, 224, 110, 103, 32, 104, 417, 110, 46]"

text \<open>
  \<^verbatim>\<open>_analyze_text_quality\<close>. The divisor of the long-word ratio is
  \<^verbatim>\<open>len(words + [1e-5])\<close>: the length of the word list with one more element appended.
  The quotient of the two lengths is the true division of two integers, which is the
  rounded exact quotient; the score starts at \<^verbatim>\<open>1.0\<close> and \<^verbatim>\<open>-= 0.3\<close> or \<^verbatim>\<open>-= 0.2\<close>
  is a float subtraction.
\<close>

definition analyze_text_quality :: "pystr \<Rightarrow> text_analysis" where
  "analyze_text_quality text =
     (let words = py_split text
      in if length words > 40
         then \<lparr> score = fsub 1 (double (3 / 10)), action = ''summarize'',
                reason = reason_too_long \<rparr>
         else let long_words = filter (\<lambda>w. length w > 12) words
              in if fdiv (rat_of_nat (length long_words)) (rat_of_nat (length (words @ [[]])))
                      > double (15 / 100)
                 then \<lparr> score = fsub 1 (double (2 / 10)), action = ''clarify'',
                        reason = reason_complex_words \<rparr>
                 else \<lparr> score = 1, action = ''none'', reason = [] \<rparr>)"

text \<open>
  The generative collaborator (tokenizer, \<^verbatim>\<open>model.generate\<close>, \<^verbatim>\<open>batch_decode\<close>) is a
  function from the list of prefixed inputs to the list of decoded outputs. Every request
  sent to it is appended to the list \<open>calls\<close>, which the refiner functions take and return.
\<close>

type_synonym collaborator = "pystr list \<Rightarrow> pystr list"

definition prefixes :: "(string \<times> pystr) list" where
  "prefixes = [(''summarize'', ascii ''summarize: ''),
               (''clarify'', ascii ''make it clear: ''),
               (''grammar'', ascii ''fix grammar: ''),
               (''none'', [])]"

text \<open>The list comprehension that builds the model inputs; an unknown action is a KeyError.\<close>

fun batch_inputs :: "pystr list \<Rightarrow> string list \<Rightarrow> error + pystr list" where
  "batch_inputs (t # ts) (a # as) =
     (if a \<noteq> ''none''
      then (case map_of prefixes a of
              None \<Rightarrow> Inl KeyError
            | Some p \<Rightarrow> (case batch_inputs ts as of
                          Inl e \<Rightarrow> Inl e
                        | Inr r \<Rightarrow> Inr ((p @ t) # r)))
      else batch_inputs ts as)"
| "batch_inputs ts as = Inr []"

text \<open>The loop that maps the outputs back; \<open>i\<close> and \<open>refined_idx\<close> are its two counters.\<close>

fun map_back :: "pystr list \<Rightarrow> pystr list \<Rightarrow> nat \<Rightarrow> nat \<Rightarrow> string list \<Rightarrow> error + pystr list" where
  "map_back texts refined_texts i refined_idx [] = Inr []"
| "map_back texts refined_texts i refined_idx (a # as) =
     (if a \<noteq> ''none''
      then (if refined_idx < length refined_texts
            then (case map_back texts refined_texts (i + 1) (refined_idx + 1) as of
                    Inl e \<Rightarrow> Inl e
                  | Inr r \<Rightarrow> Inr (refined_texts ! refined_idx # r))
            else Inl IndexError)
      else (if i < length texts
            then (case map_back texts refined_texts (i + 1) refined_idx as of
                    Inl e \<Rightarrow> Inl e
                  | Inr r \<Rightarrow> Inr (texts ! i # r))
            else Inl IndexError))"

definition refine_content_batch ::
  "collaborator \<Rightarrow> bool \<Rightarrow> pystr list list \<Rightarrow> pystr list \<Rightarrow> string list
     \<Rightarrow> (error + pystr list) \<times> pystr list list" where
  "refine_content_batch gen available calls texts actions =
     (if \<not> available then (Inr texts, calls)
      else if texts = [] then (Inr texts, calls)
      else (case batch_inputs texts actions of
              Inl e \<Rightarrow> (Inl e, calls)
            | Inr inputs \<Rightarrow>
                if inputs = [] then (Inr texts, calls)
                else (map_back texts (gen inputs) 0 0 actions, calls @ [inputs])))"

text \<open>
  A slide is a dictionary; the record has one optional field for every key the refiner reads
  or writes, and for the outline keys \<^verbatim>\<open>slide_content\<close>, \<^verbatim>\<open>detailed_content\<close> and
  \<^verbatim>\<open>speaking_points\<close>. \<open>None\<close> is an absent key and \<open>dict_get\<close> is
  \<^verbatim>\<open>dict.get(key, default)\<close>.
\<close>

record slide =
  content :: "pystr option"
  bullet_points :: "pystr list option"
  bert_refined :: "bool option"
  quality_score :: "rat option"
  bert_suggestions :: "pystr list option"
  original_content :: "pystr option"
  original_bullet_points :: "pystr list option"
  slide_content :: "pystr list option"
  detailed_content :: "pystr option"
  speaking_points :: "pystr list option"

record refinement_stats =
  total_slides :: nat
  improved_content :: nat
  improved_bullets :: nat
  improved_speaking :: "nat option"
  total_quality_score :: "rat option"
  method_used :: pystr
  average_quality :: rat

record deck =
  slides :: "slide list option"
  bert_refinement_stats :: "refinement_stats option"

definition dict_get :: "'a option \<Rightarrow> 'a \<Rightarrow> 'a" where
  "dict_get v d = (case v of None \<Rightarrow> d | Some x \<Rightarrow> x)"

text \<open>The entries of \<^verbatim>\<open>original_map\<close>.\<close>

record fragment_info =
  slide_index :: nat
  field :: string
  bullet_index :: "nat option"
  analysis :: text_analysis

text \<open>Step 1 of \<^verbatim>\<open>refine_content\<close>: the fragments of one slide, each with its text.\<close>

definition collect_slide :: "nat \<Rightarrow> slide \<Rightarrow> (pystr \<times> fragment_info) list" where
  "collect_slide i s =
     (let c = dict_get (content s) []
      in (if c \<noteq> []
          then [(c, \<lparr> slide_index = i, field = ''content'', bullet_index = None,
                      analysis = analyze_text_quality c \<rparr>)]
          else [])
         @ map (\<lambda>(j, bullet).
                  (bullet, \<lparr> slide_index = i, field = ''bullet_points'', bullet_index = Some j,
                             analysis = analyze_text_quality bullet \<rparr>))
               (enumerate 0 (dict_get (bullet_points s) [])))"

definition collect_fragments :: "slide list \<Rightarrow> (pystr \<times> fragment_info) list" where
  "collect_fragments slide_list =
     concat (map (\<lambda>(i, s). collect_slide i s) (enumerate 0 slide_list))"

text \<open>
  Step 3: the state of the update loop is the slide list and the two sets of improved
  slide indices. \<open>apply_fragment\<close> is one iteration of the loop body. An exception leaves
  the loop; the partly updated slides are not part of the error value.
\<close>

record refine_state =
  cur_slides :: "slide list"
  improved_content_slides :: "nat set"
  improved_bullets_slides :: "nat set"

definition apply_fragment ::
  "pystr \<Rightarrow> pystr \<Rightarrow> fragment_info \<Rightarrow> refine_state \<Rightarrow> error + refine_state" where
  "apply_fragment original_text refined_text original_info st =
     (let slide_idx = slide_index original_info;
          an = analysis original_info
      in if length (cur_slides st) \<le> slide_idx then Inl IndexError
         else
           let s = cur_slides st ! slide_idx;
               s = s\<lparr> bert_refined := Some (dict_get (bert_refined s) False) \<rparr>;
               s = s\<lparr> quality_score := Some (dict_get (quality_score s) 1) \<rparr>;
               s = s\<lparr> bert_suggestions := Some (dict_get (bert_suggestions s) []) \<rparr>;
               changed =
                 (if py_strip original_text \<noteq> py_strip refined_text \<and> action an \<noteq> ''none''
                  then
                    let s = s\<lparr> bert_refined := Some True \<rparr>;
                        s = s\<lparr> bert_suggestions :=
                                 Some (dict_get (bert_suggestions s) [] @ [reason an]) \<rparr>
                    in if field original_info = ''content''
                       then Inr (s\<lparr> original_content := Some original_text,
                                     content := Some refined_text \<rparr>,
                                 insert slide_idx (improved_content_slides st),
                                 improved_bullets_slides st)
                       else if field original_info = ''bullet_points''
                       then (case bullet_index original_info of
                               None \<Rightarrow> Inl KeyError
                             | Some bullet_idx \<Rightarrow>
                                 (case bullet_points s of
                                    None \<Rightarrow> Inl KeyError
                                  | Some bs \<Rightarrow>
                                      let s = (if original_bullet_points s = None
                                               then s\<lparr> original_bullet_points := Some bs \<rparr>
                                               else s)
                                      in if bullet_idx < length bs
                                         then Inr (s\<lparr> bullet_points :=
                                                         Some (bs[bullet_idx := refined_text]) \<rparr>,
                                                   improved_content_slides st,
                                                   insert slide_idx (improved_bullets_slides st))
                                         else Inl IndexError))
                       else Inr (s, improved_content_slides st, improved_bullets_slides st)
                  else Inr (s, improved_content_slides st, improved_bullets_slides st))
           in case changed of
                Inl e \<Rightarrow> Inl e
              | Inr (s, ic, ib) \<Rightarrow>
                  Inr \<lparr> cur_slides =
                          (cur_slides st)[slide_idx :=
                             s\<lparr> quality_score :=
                                   map_option (\<lambda>q. fsub q (fsub 1 (score an)))
                                     (quality_score s) \<rparr>],
                        improved_content_slides = ic,
                        improved_bullets_slides = ib \<rparr>)"

fun apply_fragments ::
  "pystr list \<Rightarrow> pystr list \<Rightarrow> nat \<Rightarrow> fragment_info list \<Rightarrow> refine_state
     \<Rightarrow> error + refine_state" where
  "apply_fragments texts_to_process refined_texts i [] st = Inr st"
| "apply_fragments texts_to_process refined_texts i (original_info # rest) st =
     (if i < length texts_to_process \<and> i < length refined_texts
      then (case apply_fragment (texts_to_process ! i) (refined_texts ! i) original_info st of
              Inl e \<Rightarrow> Inl e
            | Inr st' \<Rightarrow> apply_fragments texts_to_process refined_texts (i + 1) rest st')
      else Inl IndexError)"

text \<open>
  The final loop: the 0.1 floor on every slide and the running total, a float sum taken in
  the order of the slides.
\<close>

fun finalize_scores :: "slide list \<Rightarrow> rat \<Rightarrow> slide list \<times> rat" where
  "finalize_scores [] running = ([], running)"
| "finalize_scores (s # ss) running =
     (let q = max (double (1 / 10)) (dict_get (quality_score s) 1);
          (ss', running') = finalize_scores ss (fadd running q)
      in (s\<lparr> quality_score := Some q \<rparr> # ss', running'))"

text \<open>
  \<^verbatim>\<open>refine_content\<close>. \<open>device\<close> is the device name that the constructor stored
  (\<^verbatim>\<open>cuda\<close> or \<^verbatim>\<open>cpu\<close>). The average is the float quotient of the running total by
  the slide count, an integer that the division first converts to a float.
\<close>

definition refine_content ::
  "collaborator \<Rightarrow> bool \<Rightarrow> pystr \<Rightarrow> pystr list list \<Rightarrow> deck
     \<Rightarrow> (error + deck) \<times> pystr list list" where
  "refine_content gen available device calls data =
     (if \<not> available then (Inr data, calls)
      else
        let slide_list = dict_get (slides data) []
        in if slide_list = [] then (Inr data, calls)
           else
             let frags = collect_fragments slide_list;
                 texts_to_process = map fst frags;
                 original_map = map snd frags;
                 actions = map (\<lambda>info. action (analysis info)) original_map
             in case refine_content_batch gen available calls texts_to_process actions of
                  (Inl e, calls') \<Rightarrow> (Inl e, calls')
                | (Inr refined_texts, calls') \<Rightarrow>
                    (case apply_fragments texts_to_process refined_texts 0 original_map
                            \<lparr> cur_slides = slide_list, improved_content_slides = {},
                              improved_bullets_slides = {} \<rparr> of
                       Inl e \<Rightarrow> (Inl e, calls')
                     | Inr st \<Rightarrow>
                         let (final_slides, total_quality) = finalize_scores (cur_slides st) 0;
                             stats = \<lparr> total_slides = length slide_list,
                                       improved_content = card (improved_content_slides st),
                                       improved_bullets = card (improved_bullets_slides st),
                                       improved_speaking = None,
                                       total_quality_score = Some total_quality,
                                       method_used = ascii ''t5-small ('' @ device @ ascii '')'',
                                       average_quality =
                                         fdiv total_quality
                                           (double (rat_of_nat (length slide_list))) \<rparr>
                         in (Inr (data\<lparr> slides := Some final_slides,
                                         bert_refinement_stats := Some stats \<rparr>), calls')))"

text \<open>
  The lightweight class of the same name that bert_features_extracted.py and
  streamlit_app.py define when the module cannot be imported. Its \<^verbatim>\<open>available\<close> flag
  is always false; \<open>fallback_stats\<close> is the \<^verbatim>\<open>refinement_stats\<close> dictionary its
  constructor builds, and \<open>fallback_refine_content\<close> returns the deck and that dictionary.
\<close>

definition fallback_stats :: refinement_stats where
  "fallback_stats = \<lparr> total_slides = 0, improved_content = 0, improved_bullets = 0,
                      improved_speaking = Some 0, total_quality_score = None,
                      method_used = ascii ''rule-based'', average_quality = double (8 / 10) \<rparr>"

definition fallback_refine_content :: "refinement_stats \<Rightarrow> deck \<Rightarrow> deck \<times> refinement_stats" where
  "fallback_refine_content self_stats data =
     (let slide_list = dict_get (slides data) [];
          stamped = map_option
                      (map (\<lambda>s. s\<lparr> quality_score := Some (double (8 / 10)),
                                      bert_refined := Some False \<rparr>))
                      (slides data);
          self_stats = self_stats\<lparr> total_slides := length slide_list \<rparr>
      in (data\<lparr> slides := stamped, bert_refinement_stats := Some self_stats \<rparr>, self_stats))"

section \<open>Content signals and charts\<close>

text \<open>
  \<^verbatim>\<open>AdvancedContentProcessor.analyze_content\<close> (modules/advanced_features.py).
  \<open>match_number\<close> is the match of the pattern
  \<^verbatim>\<open>\d+(?:[.,]\d+)?(?:\s*%|\s*tr|\s*t\<close>\<open>\<dots>\<close>\<^verbatim>\<open>|\s*k)?\<close> at a position that holds a digit: the
  longest run of digits, a fraction part if a digit follows the separator, and the first
  unit alternative that matches after any white space. Every part after the first run is
  optional, so the greedy choice is the match. \<open>find_numbers\<close> is \<^verbatim>\<open>re.findall\<close>: the
  matches from left to right, each search starting where the previous match ended
  (\<open>skip\<close> counts the code points of the current match still to pass).
\<close>

definition match_number :: "pystr \<Rightarrow> pystr" where
  "match_number s =
     (let d1 = takeWhile is_digit s;
          r1 = dropWhile is_digit s;
          frac = (case r1 of
                    [] \<Rightarrow> []
                  | c # r \<Rightarrow> if (c = 46 \<or> c = 44) \<and> takeWhile is_digit r \<noteq> []
                             then c # takeWhile is_digit r else []);
          r2 = drop (length frac) r1;
          ws = takeWhile py_isspace r2;
          r3 = dropWhile py_isspace r2;
          unit_part = (if take 1 r3 = [37] then ws @ [37]
                       else if take 2 r3 = [116, 114] then ws @ [116, 114]
                       else if take 2 r3 = [116, 7927] then ws @ [116, 7927]
                       else if take 1 r3 = [107] then ws @ [107]
                       else [])
      in d1 @ frac @ unit_part)"

fun find_numbers :: "nat \<Rightarrow> pystr \<Rightarrow> pystr list" where
  "find_numbers skip [] = []"
| "find_numbers skip (c # cs) =
     (if 0 < skip then find_numbers (skip - 1) cs
      else if is_digit c
      then (let tok = match_number (c # cs) in tok # find_numbers (length tok - 1) cs)
      else find_numbers 0 cs)"

definition chart_keywords :: "(string \<times> pystr list) list" where
  "chart_keywords =
     [(''bar'', [[115, 111, 32, 115, 225, 110, 104],
                 [112, 104, 226, 110, 32, 108, 111, 7841, 105],
                 [116, 104, 7889, 110, 103, 32, 107, 234],
                 [100, 7919, 32, 108, 105, 7879, 117],
                 [115, 7889, 32, 108, 105, 7879, 117]]),
      (''line'', [[120, 117, 32, 104, 432, 7899, 110, 103],
                  [116, 104, 7901, 105, 32, 103, 105, 97, 110],
                  [112, 104, 225, 116, 32, 116, 114, 105, 7875, 110],
                  [116, 259, 110, 103, 32, 116, 114, 432, 7903, 110, 103],
                  [98, 105, 7871, 110, 32, 273, 7893, 105]]),
      (''pie'', [[116, 7927, 32, 108, 7879],
                 [112, 104, 7847, 110, 32, 116, 114, 259, 109],
                 [37],
                 [99, 417, 32, 99, 7845, 117],
                 [116, 104, 224, 110, 104, 32, 112, 104, 7847, 110]]),
      (''process'', [[98, 432, 7899, 99],
                     [113, 117, 121, 32, 116, 114, 236, 110, 104],
                     [116, 105, 7871, 110, 32, 116, 114, 236, 110, 104],
                     ascii ''flow'',
                     ascii ''workflow''])]"

text \<open>
  The result dictionary of \<^verbatim>\<open>analyze_content\<close>, without the keys that the process-step
  scan fills and without the constant animation style: the chart step reads none of them.
  \<open>chart_type\<close> is \<open>None\<close> for Python's \<^verbatim>\<open>None\<close>; the key itself is always present.
\<close>

record content_analysis =
  has_numbers :: bool
  numbers_data :: "pystr list"
  chart_type :: "string option"

definition analyze_content :: "pystr \<Rightarrow> content_analysis" where
  "analyze_content text =
     (let numbers = find_numbers 0 (py_lower text);
          text_lower = py_lower text
      in \<lparr> has_numbers = (numbers \<noteq> []),
           numbers_data = (if numbers \<noteq> [] then take 8 numbers else []),
           chart_type = map_option fst
                          (find (\<lambda>(ct, keywords). list_ex (\<lambda>keyword. contains keyword text_lower)
                                                      keywords)
                                chart_keywords) \<rparr>)"

text \<open>
  \<^verbatim>\<open>EnhancedPowerPointGenerator._add_chart_to_slide\<close>: the result is the call to the
  chart generator that the method makes (data points, labels, title), or \<open>None\<close> when it
  makes none. \<open>float_of_digits\<close> is \<^verbatim>\<open>float\<close> on a string of the digits \<^verbatim>\<open>0\<close> to
  \<^verbatim>\<open>9\<close>: the double nearest to the number they denote.
\<close>

datatype chart_call =
  create_pie_chart "rat list" "pystr list" pystr
| create_line_chart "rat list" "pystr list" pystr
| create_bar_chart "rat list" "pystr list" pystr

definition float_of_digits :: "pystr \<Rightarrow> rat" where
  "float_of_digits ds = double (rat_of_nat (foldl (\<lambda>a c. 10 * a + (c - 48)) 0 ds))"

definition clean_num :: "pystr \<Rightarrow> pystr" where
  "clean_num num_str = filter is_digit (filter (\<lambda>c. c \<noteq> 44) (filter (\<lambda>c. c \<noteq> 46) num_str))"

definition add_chart_to_slide :: "pystr option \<Rightarrow> content_analysis \<Rightarrow> chart_call option" where
  "add_chart_to_slide slide_title_text an =
     (let numbers = numbers_data an;
          ct = chart_type an;
          data_points = map float_of_digits
                          (filter (\<lambda>d. d \<noteq> []) (map clean_num (take 6 numbers)))
      in if 2 \<le> length data_points
         then
           let labels = map (\<lambda>i. ascii ''Item '' @ str_nat (i + 1)) [0..<length data_points];
               chart_title = [66, 105, 7875, 117, 32, 273, 7891, 32]
                             @ dict_get slide_title_text (ascii ''Data'')
           in if ct = Some ''pie'' then Some (create_pie_chart data_points labels chart_title)
              else if ct = Some ''line'' then Some (create_line_chart data_points labels chart_title)
              else Some (create_bar_chart data_points labels chart_title)
         else None)"

section \<open>Auxiliary notions\<close>

text \<open>The empty dictionary, from which the example slides are built.\<close>

definition empty_slide :: slide where
  "empty_slide = \<lparr> content = None, bullet_points = None, bert_refined = None,
                    quality_score = None, bert_suggestions = None, original_content = None,
                    original_bullet_points = None, slide_content = None,
                    detailed_content = None, speaking_points = None \<rparr>"

text \<open>
  Three notions for the invariants of the update loop: the shape of a slide list (for each
  slide, the number of its bullets, if it has the key), a fragment that is in range for a
  shape and whose score is at most 1, and a slide list in which every quality score that is
  present is at most 1.
\<close>

definition shape_of :: "slide list \<Rightarrow> nat option list" where
  "shape_of ss = map (\<lambda>s. map_option length (bullet_points s)) ss"

definition frag_ok :: "nat option list \<Rightarrow> fragment_info \<Rightarrow> bool" where
  "frag_ok shp info =
     (slide_index info < length shp
      \<and> score (analysis info) \<le> 1
      \<and> (field info = ''bullet_points'' \<longrightarrow>
           (\<exists>j n. bullet_index info = Some j \<and> shp ! slide_index info = Some n \<and> j < n)))"

definition scores_at_most_1 :: "slide list \<Rightarrow> bool" where
  "scores_at_most_1 ss = (\<forall>s\<in>set ss. \<forall>q. quality_score s = Some q \<longrightarrow> q \<le> 1)"

text \<open>
  The quality scores that the update loop leaves, as a function of the slide index and the
  analysis score of every fragment: a fragment lowers the score of its slide, which starts
  at 1.0 when the slide has none, by 1.0 minus the score of its analysis.
\<close>

definition fragment_scores :: "fragment_info list \<Rightarrow> (nat \<times> rat) list" where
  "fragment_scores infos = map (\<lambda>info. (slide_index info, score (analysis info))) infos"

fun score_trace :: "(nat \<times> rat) list \<Rightarrow> rat option list \<Rightarrow> rat option list" where
  "score_trace [] qs = qs"
| "score_trace ((i, sc) # rest) qs =
     score_trace rest (qs[i := Some (fsub (dict_get (qs ! i) 1) (fsub 1 sc))])"

text \<open>
  Two readings of a result of \<open>refine_content\<close>: the quality scores of the slides and the
  reported average quality.
\<close>

definition final_scores :: "error + deck \<Rightarrow> rat option list" where
  "final_scores r = (case r of Inl e \<Rightarrow> []
                     | Inr d \<Rightarrow> map quality_score (dict_get (slides d) []))"

definition reported_average :: "error + deck \<Rightarrow> rat option" where
  "reported_average r = (case r of Inl e \<Rightarrow> None
                         | Inr d \<Rightarrow> map_option average_quality (bert_refinement_stats d))"

text \<open>
  A deck of six slides with five bullets each; every bullet is one word of 13 characters.
\<close>

definition long_word_slide :: slide where
  "long_word_slide =
     empty_slide\<lparr> bullet_points := Some (replicate 5 (ascii ''aaaaaaaaaaaaa'')) \<rparr>"

definition long_word_deck :: deck where
  "long_word_deck = \<lparr> slides = Some (replicate 6 long_word_slide),
                       bert_refinement_stats = None \<rparr>"

section \<open>Properties of the float rounding\<close>

text \<open>
  The rounding is monotone, and it leaves every number \<open>m * 2 powi j\<close> with
  \<open>\<bar>m\<bar> < 2 ^ 53\<close> as it is: these are doubles. \<open>double_eval\<close> collects the rules that
  compute the rounding of a given number.
\<close>

declare bit_length.simps [simp del]

lemma bit_length_upper: "n < 2 ^ bit_length n"
proof (induction n rule: bit_length.induct)
  case (1 n)
  show ?case
  proof (cases "n = 0")
    case True
    then show ?thesis by (simp add: bit_length.simps)
  next
    case False
    with 1 have "n div 2 < 2 ^ bit_length (n div 2)" by simp
    then have "n < 2 * 2 ^ bit_length (n div 2)" by linarith
    with False show ?thesis by (simp add: bit_length.simps[of n])
  qed
qed

lemma bit_length_lower: "0 < n \<Longrightarrow> 2 ^ bit_length n \<le> 2 * n"
proof (induction n rule: bit_length.induct)
  case (1 n)
  show ?case
  proof (cases "n div 2 = 0")
    case True
    with 1(2) have "n = 1" by (simp add: div_eq_0_iff) 
    then show ?thesis by (simp add: bit_length.simps[of "Suc 0"] bit_length.simps[of 0])
  next
    case False
    with 1 have "2 ^ bit_length (n div 2) \<le> 2 * (n div 2)" by simp
    also have "\<dots> \<le> n" by simp
    finally show ?thesis using 1(2) by (simp add: bit_length.simps[of n])
  qed
qed

lemma bit_length_pos: "0 < n \<Longrightarrow> 0 < bit_length n"
  by (simp add: bit_length.simps[of n])

lemma exponent_bounds:
  assumes "0 < x"
  shows "2 powi (exponent x) \<le> x" and "x < 2 powi (exponent x + 1)"
proof -
  have "2 powi (exponent x) \<le> x \<and> x < 2 powi (exponent x + 1)"
  proof (cases "1 \<le> x")
    case True
    define n where "n = nat \<lfloor>x\<rfloor>"
    define k where "k = bit_length n"
    from True have n1: "0 < n" by (simp add: n_def)
    then have k1: "0 < k" by (simp add: k_def bit_length_pos)
    have e: "exponent x = int k - 1" using True by (simp add: exponent_def n_def k_def)
    from k1 have p0: "(2::rat) powi (int k - 1) = 2 ^ (k - 1)"
      by (simp add: power_int_def nat_diff_distrib')
    from k1 have p1: "(2::rat) powi (int k - 1 + 1) = 2 ^ k"
      by (simp add: power_int_def)
    from True have "0 \<le> \<lfloor>x\<rfloor>" by simp
    then have nf: "rat_of_nat n = rat_of_int \<lfloor>x\<rfloor>" by (simp add: n_def)
    have nx: "rat_of_nat n \<le> x" "x < rat_of_nat n + 1"
      unfolding nf by linarith+
    from bit_length_lower[OF n1] k1 have "2 * 2 ^ (k - 1) \<le> 2 * n"
      by (cases k) (simp_all add: k_def)
    then have le: "(2::nat) ^ (k - 1) \<le> n" by simp
    have "(2::rat) ^ (k - 1) = rat_of_nat (2 ^ (k - 1))" by simp
    also have "\<dots> \<le> rat_of_nat n" using le by (rule of_nat_mono)
    also have "\<dots> \<le> x" by (rule nx(1))
    finally have lo: "(2::rat) ^ (k - 1) \<le> x" .
    from bit_length_upper[of n] have up: "n + 1 \<le> 2 ^ k" by (simp add: k_def)
    have "x < rat_of_nat (n + 1)" using nx(2) by simp
    also have "\<dots> \<le> rat_of_nat (2 ^ k)" using up by (rule of_nat_mono)
    also have "\<dots> = 2 ^ k" by simp
    finally have hi: "x < (2::rat) ^ k" .
    show ?thesis unfolding e p0 p1 using lo hi by simp
  next
    case False
    with assms have x1: "x < 1" by simp
    define m where "m = \<lceil>1 / x\<rceil>"
    define n where "n = nat (m - 1)"
    define k where "k = bit_length n"
    from assms x1 have "1 < 1 / x" by simp
    then have m2: "2 \<le> m" unfolding m_def by linarith
    then have n1: "0 < n" by (simp add: n_def)
    then have k1: "0 < k" by (simp add: k_def bit_length_pos)
    have e: "exponent x = - int k" using False by (simp add: exponent_def n_def k_def m_def)
    have p0: "(2::rat) powi (- int k) = 1 / 2 ^ k"
      by (simp add: power_int_def field_simps)
    from k1 have p1: "(2::rat) powi (- int k + 1) = 2 / 2 ^ k"
      by (cases k) (simp_all add: power_int_def field_simps nat_diff_distrib')
    have mx: "1 / x \<le> rat_of_int m" "rat_of_int m - 1 < 1 / x"
      unfolding m_def by linarith+
    have mn: "rat_of_int m = rat_of_nat n + 1" using m2 by (simp add: n_def)
    from bit_length_upper[of n] have up: "n + 1 \<le> 2 ^ k" by (simp add: k_def)
    have "1 / x \<le> rat_of_nat (n + 1)" using mx(1) mn by simp
    also have "\<dots> \<le> rat_of_nat (2 ^ k)" using up by (rule of_nat_mono)
    also have "\<dots> = 2 ^ k" by simp
    finally have "1 / x \<le> 2 ^ k" .
    with assms have lo: "1 / 2 ^ k \<le> x" by (simp add: field_simps)
    from bit_length_lower[OF n1] have lw: "2 ^ k \<le> 2 * n" by (simp add: k_def)
    have "(2::rat) ^ k = rat_of_nat (2 ^ k)" by simp
    also have "\<dots> \<le> rat_of_nat (2 * n)" using lw by (rule of_nat_mono)
    also have "\<dots> = 2 * rat_of_nat n" by simp
    also have "\<dots> < 2 * (1 / x)" using mx(2) mn by simp
    finally have "(2::rat) ^ k < 2 / x" by simp
    with assms have hi: "x < 2 / 2 ^ k" by (simp add: field_simps)
    show ?thesis unfolding e p0 p1 using lo hi by simp
  qed
  then show "2 powi (exponent x) \<le> x" and "x < 2 powi (exponent x + 1)" by simp_all
qed

lemma round_half_even_mono: "x \<le> y \<Longrightarrow> round_half_even x \<le> round_half_even y"
proof -
  assume xy: "x \<le> y"
  have lo: "\<lfloor>z\<rfloor> \<le> round_half_even z" and hi: "round_half_even z \<le> \<lfloor>z\<rfloor> + 1" for z
    by (simp_all add: round_half_even_def Let_def)
  from xy have "\<lfloor>x\<rfloor> \<le> \<lfloor>y\<rfloor>" by (rule floor_mono)
  then consider "\<lfloor>x\<rfloor> = \<lfloor>y\<rfloor>" | "\<lfloor>x\<rfloor> + 1 \<le> \<lfloor>y\<rfloor>" by linarith
  then show ?thesis
  proof cases
    case 1
    with xy show ?thesis by (auto simp: round_half_even_def Let_def)
  next
    case 2
    with lo[of y] hi[of x] show ?thesis by linarith
  qed
qed

lemma round_half_even_of_int: "round_half_even (of_int k) = k"
  by (simp add: round_half_even_def)

lemma power2_int_pos: "0 < (2::rat) powi k"
  by (simp add: zero_less_power_int)

lemma power2_int_add: "(2::rat) powi (a + b) = 2 powi a * 2 powi b"
  by (simp add: power_int_add)

lemma power2_int_shift: "(2::rat) powi (int n + b) = 2 ^ n * 2 powi b"
  using power2_int_add[of "int n" b] by simp

lemma power2_int_le: "a \<le> b \<Longrightarrow> (2::rat) powi a \<le> 2 powi b"
  by (rule power_int_increasing) simp_all

lemma power2_int_less_D: "(2::rat) powi a < 2 powi b \<Longrightarrow> a < b"
  using power2_int_le[of b a] by (cases "a < b") auto

lemma double_pos:
  assumes "0 < x"
  shows "double x = of_int (round_half_even (x / 2 powi (exponent x - 52))) * 2 powi (exponent x - 52)"
  using assms by (simp add: double_def Let_def)

lemma double_pos_bounds:
  assumes "0 < x"
  shows "2 powi (exponent x) \<le> double x" and "double x \<le> 2 powi (exponent x + 1)"
proof -
  let ?e = "exponent x"
  let ?u = "(2::rat) powi (?e - 52)"
  have u: "0 < ?u" by (rule power2_int_pos)
  have e0: "(2::rat) powi ?e = 2 ^ 52 * ?u"
    using power2_int_shift[of 52 "?e - 52"] by simp
  have e1: "(2::rat) powi (?e + 1) = 2 ^ 53 * ?u"
    using power2_int_shift[of 53 "?e - 52"] by (simp add: add.commute)
  from exponent_bounds[OF assms] have "2 ^ 52 * ?u \<le> x" "x < 2 ^ 53 * ?u"
    unfolding e0 e1 by simp_all
  with u have q: "2 ^ 52 \<le> x / ?u" "x / ?u \<le> 2 ^ 53"
    by (simp_all add: pos_le_divide_eq pos_divide_le_eq)
  have "round_half_even (rat_of_int (2 ^ 52)) \<le> round_half_even (x / ?u)"
    by (rule round_half_even_mono) (use q(1) in simp)
  then have lo: "2 ^ 52 \<le> round_half_even (x / ?u)" by (simp only: round_half_even_of_int)
  have "round_half_even (x / ?u) \<le> round_half_even (rat_of_int (2 ^ 53))"
    by (rule round_half_even_mono) (use q(2) in simp)
  then have hi: "round_half_even (x / ?u) \<le> 2 ^ 53" by (simp only: round_half_even_of_int)
  from lo have "rat_of_int (2 ^ 52) \<le> rat_of_int (round_half_even (x / ?u))"
    by (simp only: of_int_le_iff)
  then have "2 ^ 52 * ?u \<le> rat_of_int (round_half_even (x / ?u)) * ?u"
    using u by simp
  then show "2 powi ?e \<le> double x" unfolding e0 double_pos[OF assms] .
  from hi have "rat_of_int (round_half_even (x / ?u)) \<le> rat_of_int (2 ^ 53)"
    by (simp only: of_int_le_iff)
  then have "rat_of_int (round_half_even (x / ?u)) * ?u \<le> 2 ^ 53 * ?u"
    using u by simp
  then show "double x \<le> 2 powi (?e + 1)" unfolding e1 double_pos[OF assms] .
qed

lemma double_pos_mono:
  assumes "0 < x" "x \<le> y"
  shows "double x \<le> double y"
proof -
  from assms have y: "0 < y" by simp
  from exponent_bounds(1)[OF assms(1)] exponent_bounds(2)[OF y] assms(2)
  have "(2::rat) powi (exponent x) < 2 powi (exponent y + 1)" by linarith
  then have "exponent x < exponent y + 1" by (rule power2_int_less_D)
  then consider "exponent x = exponent y" | "exponent x + 1 \<le> exponent y" by linarith
  then show ?thesis
  proof cases
    case 1
    let ?u = "(2::rat) powi (exponent y - 52)"
    have u: "0 < ?u" by (rule power2_int_pos)
    with assms(2) have "x / ?u \<le> y / ?u" by (simp add: divide_right_mono)
    then have "round_half_even (x / ?u) \<le> round_half_even (y / ?u)" by (rule round_half_even_mono)
    then have "rat_of_int (round_half_even (x / ?u)) \<le> rat_of_int (round_half_even (y / ?u))"
      by (simp only: of_int_le_iff)
    with u have "rat_of_int (round_half_even (x / ?u)) * ?u \<le> rat_of_int (round_half_even (y / ?u)) * ?u"
      by simp
    then show ?thesis unfolding double_pos[OF assms(1)] double_pos[OF y] 1 .
  next
    case 2
    have "double x \<le> 2 powi (exponent x + 1)" by (rule double_pos_bounds(2)[OF assms(1)])
    also have "\<dots> \<le> 2 powi (exponent y)" using 2 by (rule power2_int_le)
    also have "\<dots> \<le> double y" by (rule double_pos_bounds(1)[OF y])
    finally show ?thesis .
  qed
qed

lemma double_0: "double 0 = 0"
  by (simp add: double_def)

lemma double_minus: "double (- x) = - double x"
  by (simp add: double_def Let_def)

lemma double_pos_pos: "0 < x \<Longrightarrow> 0 < double x"
  using double_pos_bounds(1)[of x] power2_int_pos[of "exponent x"] by linarith

lemma double_mono: "x \<le> y \<Longrightarrow> double x \<le> double y"
proof -
  assume xy: "x \<le> y"
  consider "0 < x" | "x = 0" "0 < y" | "x = 0" "y = 0" | "x < 0" "0 < y" | "x < 0" "y = 0" | "y < 0"
    using xy by linarith
  then show ?thesis
  proof cases
    case 1
    then show ?thesis using xy by (rule double_pos_mono)
  next
    case 2
    then show ?thesis using double_pos_pos[of y] by (simp add: double_0)
  next
    case 3
    then show ?thesis by simp
  next
    case 4
    then show ?thesis using double_pos_pos[of y] double_pos_pos[of "- x"] by (simp add: double_minus)
  next
    case 5
    then show ?thesis using double_pos_pos[of "- x"] by (simp add: double_minus double_0)
  next
    case 6
    with xy have "0 < - y" "- y \<le> - x" by simp_all
    then have "double (- y) \<le> double (- x)" by (rule double_pos_mono)
    then show ?thesis by (simp add: double_minus)
  qed
qed

lemma double_exact_pos:
  assumes m: "0 < m" "m < 2 ^ 53"
  shows "double (rat_of_int m * 2 powi j) = rat_of_int m * 2 powi j"
proof -
  let ?x = "rat_of_int m * 2 powi j"
  let ?e = "exponent ?x"
  let ?u = "(2::rat) powi (?e - 52)"
  have x: "0 < ?x" using m(1) power2_int_pos[of j] by simp
  have u: "0 < ?u" by (rule power2_int_pos)
  have "rat_of_int m < rat_of_int (2 ^ 53)" using m(2) by (simp only: of_int_less_iff)
  then have "?x < 2 ^ 53 * 2 powi j" using power2_int_pos[of j] by simp
  also have "\<dots> = 2 powi (53 + j)" using power2_int_shift[of 53 j] by simp
  finally have "(2::rat) powi ?e < 2 powi (53 + j)" using exponent_bounds(1)[OF x] by linarith
  then have "?e < 53 + j" by (rule power2_int_less_D)
  then have k: "0 \<le> j - (?e - 52)" by simp
  have "(2::rat) powi j = 2 powi (j - (?e - 52)) * ?u"
    using power2_int_add[of "j - (?e - 52)" "?e - 52"] by simp
  also have "(2::rat) powi (j - (?e - 52)) = 2 ^ nat (j - (?e - 52))"
    using k by (simp add: power_int_def)
  finally have pj: "(2::rat) powi j = 2 ^ nat (j - (?e - 52)) * ?u" .
  have "?x / ?u = rat_of_int m * 2 ^ nat (j - (?e - 52))"
    using u by (subst pj) simp
  also have "\<dots> = rat_of_int (m * 2 ^ nat (j - (?e - 52)))" by simp
  finally have q: "?x / ?u = rat_of_int (m * 2 ^ nat (j - (?e - 52)))" .
  have "double ?x = rat_of_int (round_half_even (?x / ?u)) * ?u" by (rule double_pos[OF x])
  also have "\<dots> = rat_of_int (m * 2 ^ nat (j - (?e - 52))) * ?u" by (simp only: q round_half_even_of_int)
  also have "\<dots> = ?x / ?u * ?u" by (simp only: q)
  also have "\<dots> = ?x" using u by simp
  finally show ?thesis .
qed

lemma double_exact:
  assumes "\<bar>m\<bar> < 2 ^ 53"
  shows "double (rat_of_int m * 2 powi j) = rat_of_int m * 2 powi j"
proof -
  consider "0 < m" | "m = 0" | "m < 0" by linarith
  then show ?thesis
  proof cases
    case 1
    with assms show ?thesis by (intro double_exact_pos) simp_all
  next
    case 2
    then show ?thesis by (simp add: double_0)
  next
    case 3
    with assms have "double (rat_of_int (- m) * 2 powi j) = rat_of_int (- m) * 2 powi j"
      by (intro double_exact_pos) simp_all
    then show ?thesis using double_minus[of "rat_of_int m * 2 powi j"] by simp
  qed
qed

lemma double_of_nat: "n < 2 ^ 53 \<Longrightarrow> double (rat_of_nat n) = rat_of_nat n"
  using double_exact[of "int n" 0] by simp

lemma floor_rat_numeral:
  "\<lfloor>(numeral a :: rat) / numeral b\<rfloor> = numeral a div numeral b"
  using floor_divide_of_int_eq[of "numeral a" "numeral b", where ?'a = rat] by simp

lemma ceiling_rat_numeral:
  "\<lceil>(numeral a :: rat) / numeral b\<rceil> = - ((- numeral a) div numeral b)"
  using floor_divide_of_int_eq[of "- numeral a" "numeral b", where ?'a = rat]
  by (simp add: ceiling_def)

lemmas double_eval = double_def exponent_def round_half_even_def Let_def bit_length.simps
  floor_rat_numeral ceiling_rat_numeral

lemma double_1: "double 1 = 1"
  using double_exact[of 1 0] by simp

lemma double_nonneg: "0 \<le> x \<Longrightarrow> 0 \<le> double x"
  using double_mono[of 0 x] by (simp add: double_0)

lemma double_le_1: "x \<le> 1 \<Longrightarrow> double x \<le> 1"
  using double_mono[of x 1] by (simp add: double_1)

lemma double_tenth: "double (1 / 10) = 3602879701896397 / 36028797018963968"
  by (simp add: double_eval)

section \<open>Properties of the layout chooser\<close>

text \<open>
  C1. For each of the 16 combinations of (has_charts, has_diagrams, has_content, has_photo)
  the chooser returns the tag of the priority table: charts and diagrams give mixed_media;
  else charts and content give charts_and_content; else diagrams and content give
  diagrams_and_content; else charts give charts_only; else diagrams give diagrams_only;
  else photo and content give image_and_content; else content_only. The table below lists
  all 16 rows, so no combination is left without a tag.
\<close>

theorem determine_layout_strategy_table:
  "determine_layout_strategy True True True True = ''mixed_media''
   \<and> determine_layout_strategy True True True False = ''mixed_media''
   \<and> determine_layout_strategy True True False True = ''mixed_media''
   \<and> determine_layout_strategy True True False False = ''mixed_media''
   \<and> determine_layout_strategy True False True True = ''charts_and_content''
   \<and> determine_layout_strategy True False True False = ''charts_and_content''
   \<and> determine_layout_strategy True False False True = ''charts_only''
   \<and> determine_layout_strategy True False False False = ''charts_only''
   \<and> determine_layout_strategy False True True True = ''diagrams_and_content''
   \<and> determine_layout_strategy False True True False = ''diagrams_and_content''
   \<and> determine_layout_strategy False True False True = ''diagrams_only''
   \<and> determine_layout_strategy False True False False = ''diagrams_only''
   \<and> determine_layout_strategy False False True True = ''image_and_content''
   \<and> determine_layout_strategy False False True False = ''content_only''
   \<and> determine_layout_strategy False False False True = ''content_only''
   \<and> determine_layout_strategy False False False False = ''content_only''"
  by (simp add: determine_layout_strategy_def)

section \<open>Properties of the responsive font sizes\<close>

lemma base_sizes_at_least_10:
  "10 \<le> content_large (sizes (calculate_base_sizes w h))"
  "10 \<le> heading (sizes (calculate_base_sizes w h))"
  "10 \<le> content_normal (sizes (calculate_base_sizes w h))"
  "10 \<le> bullet_main (sizes (calculate_base_sizes w h))"
  "10 \<le> slide_title (sizes (calculate_base_sizes w h))"
  by (simp_all add: calculate_base_sizes_def Let_def)

text \<open>
  C6. The claim: the bullet size is the bullet-main base size, less 1 point when the bullet
  count exceeds 6 and 2 points when it exceeds 8, less 1 point when the average bullet length
  exceeds 100 and 2 points when it exceeds 150, floored at 11pt. On the standard 10 x 7.5
  slide the base size is 15, so 5 bullets of average length 200 should get 13pt. The code
  returns 14pt: the branch for lengths above 150 comes after the branch for lengths above
  100 and is never taken.
\<close>

theorem get_bullet_size_long_bullets:
  "bullet_main (sizes (calculate_base_sizes 10 (15 / 2))) = 15
   \<and> get_bullet_size (calculate_base_sizes 10 (15 / 2)) 5 200 = 14"
  by (simp add: get_bullet_size_def calculate_base_sizes_def py_int_def Let_def)

text \<open>
  C7, as stated, fails: on a 5 x 3.75 slide the normal content size is 10pt for a text of
  100 characters and 13pt for a text of 200 characters, so the longer text gets the larger
  size.
\<close>

theorem get_content_size_not_monotone:
  "get_content_size (calculate_base_sizes 5 (15 / 4)) 100 ''normal'' = 10
   \<and> get_content_size (calculate_base_sizes 5 (15 / 4)) 200 ''normal'' = 13"
  by (simp add: get_content_size_def calculate_base_sizes_def py_int_def Let_def)

text \<open>
  C7, amended. For every slide geometry: the content size is non-increasing in the text
  length whenever the base size of the content type (the size returned for a text of length
  0) is at least 13pt; the bullet size is non-increasing in the bullet count; and every
  returned size is a positive integer (content and title sizes at least 10, bullet sizes at
  least 11).
\<close>

theorem font_sizes_monotone:
  fixes w h :: rat
  defines "fm \<equiv> calculate_base_sizes w h"
  shows "(13 \<le> get_content_size fm 0 ct \<longrightarrow> t1 \<le> t2 \<longrightarrow>
            get_content_size fm t2 ct \<le> get_content_size fm t1 ct)
         \<and> (c1 \<le> c2 \<longrightarrow> get_bullet_size fm c2 L \<le> get_bullet_size fm c1 L)
         \<and> 10 \<le> get_content_size fm t1 ct
         \<and> 11 \<le> get_bullet_size fm c1 L
         \<and> 10 \<le> get_title_size fm t1"
proof -
  have mono_content: "13 \<le> get_content_size fm 0 ct \<longrightarrow> t1 \<le> t2 \<longrightarrow>
            get_content_size fm t2 ct \<le> get_content_size fm t1 ct"
    by (auto simp: get_content_size_def Let_def)
  have mono_bullet: "c1 \<le> c2 \<longrightarrow> get_bullet_size fm c2 L \<le> get_bullet_size fm c1 L"
    by (auto simp: get_bullet_size_def Let_def)
  have pos_content: "10 \<le> get_content_size fm t1 ct"
    using base_sizes_at_least_10(1-3)[of w h]
    by (auto simp: get_content_size_def Let_def fm_def)
  have pos_bullet: "11 \<le> get_bullet_size fm c1 L"
    by (simp add: get_bullet_size_def Let_def)
  have pos_title: "10 \<le> get_title_size fm t1"
    using base_sizes_at_least_10(5)[of w h]
    by (auto simp: get_title_size_def Let_def fm_def)
  from mono_content mono_bullet pos_content pos_bullet pos_title show ?thesis by blast
qed

theorem font_sizes_monotone_witness:
  "13 \<le> get_content_size (calculate_base_sizes 10 (15 / 2)) 0 ''normal''
   \<and> (100::int) \<le> 400
   \<and> get_content_size (calculate_base_sizes 10 (15 / 2)) 400 ''normal''
        \<le> get_content_size (calculate_base_sizes 10 (15 / 2)) 100 ''normal''
   \<and> (5::int) \<le> 9
   \<and> get_bullet_size (calculate_base_sizes 10 (15 / 2)) 9 50
        \<le> get_bullet_size (calculate_base_sizes 10 (15 / 2)) 5 50"
  using font_sizes_monotone [of 10 "15 / 2" "''normal''" 100 400 5 9 50]
  by (simp add: get_content_size_def calculate_base_sizes_def py_int_def Let_def)

section \<open>Properties of the text quality analysis\<close>

text \<open>
  C8. The claim: a fragment of at most 40 words in which the words longer than 12 characters
  are more than 15% of all words gets action clarify and score 0.8. The fragment below has
  6 words, one of them 13 characters long, so the fraction is 1/6, above 15%; the code
  divides by the length of the word list extended by one element, obtains the float nearest
  to 1/7, which is not above the float 0.15, and returns action none with score 1.
\<close>

theorem analyze_text_quality_long_word_ratio:
  "length (py_split (ascii ''aaaaaaaaaaaaa b c d e f'')) = 6
   \<and> length (filter (\<lambda>w. length w > 12) (py_split (ascii ''aaaaaaaaaaaaa b c d e f''))) = 1
   \<and> analyze_text_quality (ascii ''aaaaaaaaaaaaa b c d e f'')
       = \<lparr> score = 1, action = ''none'', reason = [] \<rparr>"
  by (simp add: analyze_text_quality_def ascii_def py_split_def py_isspace_def fdiv_def
        double_eval)

section \<open>Properties of the content signals\<close>

lemma analyze_content_quarters:
  "analyze_content (ascii ''Q1: 100tr, Q2: 150tr, Q3: 200tr, Q4: 180tr'')
     = \<lparr> has_numbers = True,
         numbers_data = map ascii [''1'', ''100tr'', ''2'', ''150tr'', ''3'', ''200tr'',
                                   ''4'', ''180tr''],
         chart_type = None \<rparr>"
  by (simp add: analyze_content_def Let_def ascii_def py_lower_def match_number_def is_digit_def
        py_isspace_def chart_keywords_def)

lemma quarters_chart:
  "add_chart_to_slide title
     \<lparr> has_numbers = True,
       numbers_data = map ascii [''1'', ''100tr'', ''2'', ''150tr'', ''3'', ''200tr'',
                                 ''4'', ''180tr''],
       chart_type = None \<rparr>
   = Some (create_bar_chart [1, 100, 2, 150, 3, 200]
             (map ascii [''Item 1'', ''Item 2'', ''Item 3'', ''Item 4'', ''Item 5'', ''Item 6''])
             ([66, 105, 7875, 117, 32, 273, 7891, 32] @ dict_get title (ascii ''Data'')))"
  by (simp add: add_chart_to_slide_def float_of_digits_def clean_num_def ascii_def
        is_digit_def upt_rec double_eval)

text \<open>
  C9. The claim: on the fragment \<^verbatim>\<open>Q1: 100tr, Q2: 150tr, Q3: 200tr, Q4: 180tr\<close> the
  extractor returns the four numeric tokens 100, 150, 200, 180 and the chart step emits a
  bar chart with four labels and four values. The code returns the eight raw tokens 1,
  100tr, 2, 150tr, 3, 200tr, 4, 180tr, because the digit of each label Q1 to Q4 is a match
  of the number pattern as well, and no chart-intent keyword matches. The chart step takes
  the first six tokens, strips them to the values 1, 100, 2, 150, 3, 200 and calls the bar
  chart generator with these six values and the six labels Item 1 to Item 6: three of the
  six bars are label digits and the value 180 of Q4 is missing. The quarter pattern of
  \<^verbatim>\<open>extract_chart_data_from_text\<close> (modules/quickchart_mermaid.py), whose comment quotes
  this fragment, pairs every label Q1 to Q4 with its value.
\<close>

theorem analyze_content_quarters_chart:
  "numbers_data (analyze_content (ascii ''Q1: 100tr, Q2: 150tr, Q3: 200tr, Q4: 180tr''))
     = map ascii [''1'', ''100tr'', ''2'', ''150tr'', ''3'', ''200tr'', ''4'', ''180tr'']
   \<and> chart_type (analyze_content (ascii ''Q1: 100tr, Q2: 150tr, Q3: 200tr, Q4: 180tr'')) = None
   \<and> add_chart_to_slide title
        (analyze_content (ascii ''Q1: 100tr, Q2: 150tr, Q3: 200tr, Q4: 180tr''))
       = Some (create_bar_chart [1, 100, 2, 150, 3, 200]
                 (map ascii [''Item 1'', ''Item 2'', ''Item 3'', ''Item 4'', ''Item 5'',
                             ''Item 6''])
                 ([66, 105, 7875, 117, 32, 273, 7891, 32] @ dict_get title (ascii ''Data'')))"
  unfolding analyze_content_quarters using quarters_chart [of title] by simp

section \<open>Properties of the content quality refiner\<close>

lemma analyze_text_quality_action:
  "action (analyze_text_quality t) = ''summarize'' \<or> action (analyze_text_quality t) = ''clarify''
   \<or> action (analyze_text_quality t) = ''none''"
  by (simp add: analyze_text_quality_def Let_def)

lemma fsub_1_double_le_1: "0 \<le> x \<Longrightarrow> fsub 1 (double x) \<le> 1"
  unfolding fsub_def using double_nonneg[of x] by (intro double_le_1) simp

lemma analyze_text_quality_score: "score (analyze_text_quality t) \<le> 1"
  by (simp add: analyze_text_quality_def Let_def fsub_1_double_le_1)

lemma lower_score_le_1:
  assumes "q \<le> 1" and "sc \<le> 1"
  shows "fsub q (fsub 1 sc) \<le> 1"
proof -
  from assms(2) have "0 \<le> fsub 1 sc" unfolding fsub_def by (intro double_nonneg) simp
  with assms(1) show ?thesis unfolding fsub_def by (intro double_le_1) simp
qed

lemma batch_inputs_Inr:
  "batch_inputs texts actions = Inr inputs \<Longrightarrow>
   inputs = map (\<lambda>(t, a). the (map_of prefixes a) @ t)
              (filter (\<lambda>(t, a). a \<noteq> ''none'') (zip texts actions))"
proof (induction texts actions arbitrary: inputs rule: batch_inputs.induct)
  case (1 t ts a as)
  then show ?case
    by (auto split: if_splits option.splits sum.splits)
qed simp_all

lemma prefixes_known:
  "a = ''summarize'' \<or> a = ''clarify'' \<or> a = ''grammar'' \<or> a = ''none'' \<Longrightarrow>
   \<exists>p. map_of prefixes a = Some p"
  unfolding prefixes_def by (elim disjE) simp_all

lemma batch_inputs_ok:
  "\<forall>a\<in>set actions. a = ''summarize'' \<or> a = ''clarify'' \<or> a = ''grammar'' \<or> a = ''none'' \<Longrightarrow>
   \<exists>inputs. batch_inputs texts actions = Inr inputs"
proof (induction texts actions rule: batch_inputs.induct)
  case (1 t ts a as)
  from "1.prems" obtain p where p: "map_of prefixes a = Some p"
    using prefixes_known[of a] by auto
  from "1.prems" have rest: "\<forall>a\<in>set as. a = ''summarize'' \<or> a = ''clarify'' \<or> a = ''grammar'' \<or> a = ''none''"
    by simp
  show ?case
  proof (cases "a = ''none''")
    case True
    with "1.IH"(2) rest show ?thesis by simp
  next
    case False
    with "1.IH"(1)[OF False p] rest obtain r where "batch_inputs ts as = Inr r" by blast
    with False p show ?thesis by simp
  qed
qed simp_all

lemma map_back_length:
  "map_back texts refined i j as = Inr out \<Longrightarrow> length out = length as"
  by (induction as arbitrary: i j out) (auto split: if_splits sum.splits)

lemma map_back_none:
  "map_back texts refined i j as = Inr out \<Longrightarrow> k < length as \<Longrightarrow> as ! k = ''none'' \<Longrightarrow>
   out ! k = texts ! (i + k)"
proof (induction as arbitrary: i j out k)
  case Nil
  then show ?case by simp
next
  case (Cons a as)
  show ?case
  proof (cases k)
    case 0
    with Cons.prems show ?thesis by (auto split: if_splits sum.splits)
  next
    case (Suc k')
    with Cons.prems Cons.IH show ?thesis
      by (fastforce split: if_splits sum.splits)
  qed
qed

lemma map_back_ok:
  "i + length as \<le> length texts \<Longrightarrow>
   j + length (filter (\<lambda>a. a \<noteq> ''none'') as) \<le> length refined \<Longrightarrow>
   \<exists>out. map_back texts refined i j as = Inr out"
proof (induction as arbitrary: i j)
  case Nil
  then show ?case by simp
next
  case (Cons a as)
  show ?case
  proof (cases "a = ''none''")
    case True
    with Cons.prems Cons.IH[of "i + 1" j] show ?thesis by auto
  next
    case False
    with Cons.prems Cons.IH[of "i + 1" "j + 1"] show ?thesis by auto
  qed
qed

lemma shape_of_update:
  assumes "i < length ss"
      and "map_option length (bullet_points s') = map_option length (bullet_points (ss ! i))"
  shows "shape_of (ss[i := s']) = shape_of ss"
proof -
  have "shape_of (ss[i := s']) = (shape_of ss)[i := map_option length (bullet_points s')]"
    by (simp add: shape_of_def map_update)
  also have "\<dots> = (shape_of ss)[i := shape_of ss ! i]"
    using assms by (simp add: shape_of_def)
  finally show ?thesis by simp
qed

lemma scores_at_most_1_update:
  assumes "scores_at_most_1 ss" and "\<forall>q. quality_score s' = Some q \<longrightarrow> q \<le> 1"
  shows "scores_at_most_1 (ss[i := s'])"
proof -
  have "set (ss[i := s']) \<subseteq> insert s' (set ss)" by (rule set_update_subset_insert)
  with assms show ?thesis unfolding scores_at_most_1_def by blast
qed

lemma apply_fragment_ok:
  assumes ok: "frag_ok (shape_of (cur_slides st)) info"
      and sc: "scores_at_most_1 (cur_slides st)"
  shows "\<exists>st'. apply_fragment original_text refined_text info st = Inr st'
           \<and> shape_of (cur_slides st') = shape_of (cur_slides st)
           \<and> scores_at_most_1 (cur_slides st')"
proof -
  let ?ss = "cur_slides st"
  let ?i = "slide_index info"
  from ok have i: "?i < length ?ss" by (simp add: frag_ok_def shape_of_def)
  from ok have le1: "score (analysis info) \<le> 1" by (simp add: frag_ok_def)
  from sc i have "dict_get (quality_score (?ss ! ?i)) 1 \<le> 1"
    by (auto simp: scores_at_most_1_def dict_get_def split: option.splits)
  from lower_score_le_1[OF this le1]
  have q0: "fsub (dict_get (quality_score (?ss ! ?i)) 1) (fsub 1 (score (analysis info))) \<le> 1" .
  have upd: "\<And>s'. map_option length (bullet_points s') = map_option length (bullet_points (?ss ! ?i))
      \<Longrightarrow> (\<forall>q. quality_score s' = Some q \<longrightarrow> q \<le> 1)
      \<Longrightarrow> shape_of (?ss[?i := s']) = shape_of ?ss \<and> scores_at_most_1 (?ss[?i := s'])"
    using shape_of_update[OF i] scores_at_most_1_update[OF sc] by blast
  show ?thesis
  proof (cases "field info = ''bullet_points''")
    case True
    with ok obtain j n where j: "bullet_index info = Some j" "shape_of ?ss ! ?i = Some n" "j < n"
      by (auto simp: frag_ok_def)
    with i obtain bs where bs: "bullet_points (?ss ! ?i) = Some bs" "j < length bs"
      by (auto simp: shape_of_def)
    show ?thesis
      using True i j(1) bs le1 q0
      by (auto simp: apply_fragment_def Let_def intro!: upd)
  next
    case False
    show ?thesis
      using False i le1 q0
      by (auto simp: apply_fragment_def Let_def intro!: upd)
  qed
qed

lemma apply_fragments_ok:
  assumes "\<forall>info\<in>set infos. frag_ok (shape_of (cur_slides st)) info"
      and "scores_at_most_1 (cur_slides st)"
      and "i + length infos \<le> length texts" "i + length infos \<le> length refined"
  shows "\<exists>st'. apply_fragments texts refined i infos st = Inr st'
           \<and> shape_of (cur_slides st') = shape_of (cur_slides st)
           \<and> scores_at_most_1 (cur_slides st')"
  using assms
proof (induction infos arbitrary: i st)
  case Nil
  then show ?case by simp
next
  case (Cons info infos)
  from Cons.prems obtain st1 where st1:
    "apply_fragment (texts ! i) (refined ! i) info st = Inr st1"
    "shape_of (cur_slides st1) = shape_of (cur_slides st)"
    "scores_at_most_1 (cur_slides st1)"
    using apply_fragment_ok[of st info "texts ! i" "refined ! i"] by auto
  from Cons.prems st1 have
    "\<exists>st'. apply_fragments texts refined (i + 1) infos st1 = Inr st'
           \<and> shape_of (cur_slides st') = shape_of (cur_slides st1)
           \<and> scores_at_most_1 (cur_slides st')"
    by (intro Cons.IH) auto
  with st1 Cons.prems show ?case by auto
qed

lemma finalize_scores_eq:
  "finalize_scores ss running =
     (map (\<lambda>s. s\<lparr> quality_score :=
                      Some (max (double (1 / 10)) (dict_get (quality_score s) 1)) \<rparr>) ss,
      foldl fadd running
        (map (\<lambda>s. max (double (1 / 10)) (dict_get (quality_score s) 1)) ss))"
  by (induction ss arbitrary: running) (simp_all add: Let_def)

lemma filter_zip_snd_length:
  "length texts = length actions \<Longrightarrow>
   length (filter (\<lambda>(t, a). P a) (zip texts actions)) = length (filter P actions)"
  by (induction texts actions rule: list_induct2) simp_all

lemma refine_content_batch_calls:
  "\<exists>batch. snd (refine_content_batch gen available calls texts actions) = calls @ batch
     \<and> length batch \<le> 1
     \<and> (\<forall>inputs\<in>set batch. batch_inputs texts actions = Inr inputs)"
  by (auto simp: refine_content_batch_def split: sum.splits)

lemma refine_content_batch_total:
  assumes gen: "\<forall>xs. length (gen xs) = length xs"
      and len: "length texts = length actions"
      and valid: "\<forall>a\<in>set actions. a = ''summarize'' \<or> a = ''clarify'' \<or> a = ''grammar'' \<or> a = ''none''"
  shows "\<exists>out. fst (refine_content_batch gen available calls texts actions) = Inr out
           \<and> length out = length texts"
proof -
  from batch_inputs_ok[OF valid] obtain inputs where inp: "batch_inputs texts actions = Inr inputs"
    by blast
  have "length inputs = length (filter (\<lambda>a. a \<noteq> ''none'') actions)"
    using batch_inputs_Inr[OF inp] filter_zip_snd_length[OF len, of "\<lambda>a. a \<noteq> ''none''"] by simp
  with gen have "0 + length (filter (\<lambda>a. a \<noteq> ''none'') actions) \<le> length (gen inputs)" by simp
  moreover from len have "0 + length actions \<le> length texts" by simp
  ultimately obtain out where out: "map_back texts (gen inputs) 0 0 actions = Inr out"
    using map_back_ok by blast
  with len have "length out = length texts" using map_back_length by fastforce
  with inp out show ?thesis by (simp add: refine_content_batch_def)
qed

lemma collect_slide_ok:
  assumes "i < length ss" and "(t, info) \<in> set (collect_slide i (ss ! i))"
  shows "frag_ok (shape_of ss) info \<and> analysis info = analyze_text_quality t"
proof -
  from assms(2) consider
      (c) "info = \<lparr> slide_index = i, field = ''content'', bullet_index = None,
                     analysis = analyze_text_quality t \<rparr>"
    | (b) j where "(j, t) \<in> set (enumerate 0 (dict_get (bullet_points (ss ! i)) []))"
                  "info = \<lparr> slide_index = i, field = ''bullet_points'', bullet_index = Some j,
                             analysis = analyze_text_quality t \<rparr>"
    by (auto simp: collect_slide_def Let_def split: if_splits)
  then show ?thesis
  proof cases
    case c
    with assms(1) show ?thesis
      by (simp add: frag_ok_def shape_of_def analyze_text_quality_score)
  next
    case b
    from b(1) have "j < length (dict_get (bullet_points (ss ! i)) [])"
      by (simp add: in_set_enumerate_eq)
    then obtain bs where "bullet_points (ss ! i) = Some bs" "j < length bs"
      by (cases "bullet_points (ss ! i)") (auto simp: dict_get_def)
    with b(2) assms(1) show ?thesis
      by (simp add: frag_ok_def shape_of_def analyze_text_quality_score)
  qed
qed

lemma collect_fragments_ok:
  assumes "(t, info) \<in> set (collect_fragments ss)"
  shows "frag_ok (shape_of ss) info \<and> analysis info = analyze_text_quality t"
proof -
  from assms obtain i s where "(i, s) \<in> set (enumerate 0 ss)" "(t, info) \<in> set (collect_slide i s)"
    by (auto simp: collect_fragments_def)
  then have "i < length ss" "(t, info) \<in> set (collect_slide i (ss ! i))"
    by (auto simp: in_set_enumerate_eq)
  then show ?thesis by (rule collect_slide_ok)
qed

lemma apply_fragment_scores:
  assumes "apply_fragment original_text refined_text info st = Inr st'"
  shows "map quality_score (cur_slides st')
           = score_trace (fragment_scores [info]) (map quality_score (cur_slides st))"
proof -
  let ?ss = "cur_slides st"
  let ?i = "slide_index info"
  from assms have i: "?i < length ?ss"
    by (auto simp: apply_fragment_def Let_def split: if_splits)
  from assms obtain s' where
    st': "cur_slides st' = ?ss[?i := s'\<lparr> quality_score :=
            Some (fsub (dict_get (quality_score (?ss ! ?i)) 1) (fsub 1 (score (analysis info)))) \<rparr>]"
    using i
    by (auto simp: apply_fragment_def Let_def split: if_splits option.splits sum.splits)
  show ?thesis
    unfolding st' using i by (simp add: map_update fragment_scores_def)
qed

lemma apply_fragments_scores:
  "apply_fragments texts refined i infos st = Inr st' \<Longrightarrow>
   map quality_score (cur_slides st')
     = score_trace (fragment_scores infos) (map quality_score (cur_slides st))"
proof (induction infos arbitrary: i st)
  case Nil
  then show ?case by (simp add: fragment_scores_def)
next
  case (Cons info infos)
  from Cons.prems obtain st1 where
    st1: "apply_fragment (texts ! i) (refined ! i) info st = Inr st1"
    and rest: "apply_fragments texts refined (i + 1) infos st1 = Inr st'"
    by (auto split: if_splits sum.splits)
  from Cons.IH[OF rest] apply_fragment_scores[OF st1]
  show ?case by (simp add: fragment_scores_def)
qed

lemma bit_length_le: "n < 2 ^ k \<Longrightarrow> bit_length n \<le> k"
proof (cases "n = 0")
  case True
  then show ?thesis by (simp add: bit_length.simps[of 0])
next
  case False
  assume "n < 2 ^ k"
  with bit_length_lower[of n] False have "(2::nat) ^ bit_length n < 2 ^ Suc k" by simp
  then have "bit_length n < Suc k" by (simp only: power_strict_increasing_iff)
  then show ?thesis by simp
qed

lemma grid_exact:
  assumes k: "k \<le> 2 ^ m" and mj: "m + j \<le> 56"
  shows "double (rat_of_nat k * (rat_of_int \<lfloor>double (1 / 10) * 2 ^ j\<rfloor> / 2 ^ j))
           = rat_of_nat k * (rat_of_int \<lfloor>double (1 / 10) * 2 ^ j\<rfloor> / 2 ^ j)"
proof -
  define A where "A = \<lfloor>double (1 / 10) * 2 ^ j\<rfloor>"
  have "0 \<le> double (1 / 10) * 2 ^ j" by (simp add: double_tenth)
  then have A0: "0 \<le> A" unfolding A_def by simp
  have "rat_of_int A \<le> double (1 / 10) * 2 ^ j" unfolding A_def by (rule of_int_floor_le)
  also have "\<dots> < 1 / 8 * 2 ^ j" by (simp add: double_tenth)
  finally have "rat_of_int (8 * A) < rat_of_int (2 ^ j)" by simp
  then have A8: "8 * A < 2 ^ j" by (simp only: of_int_less_iff)
  from k have "int k \<le> 2 ^ m" by (metis of_nat_le_iff of_nat_numeral of_nat_power)
  with A0 have "int k * (8 * A) \<le> 2 ^ m * (8 * A)" by (intro mult_right_mono) simp_all
  also have "\<dots> < 2 ^ m * 2 ^ j" using A8 by simp
  also have "\<dots> = (2::int) ^ (m + j)" by (simp add: power_add)
  also have "\<dots> \<le> 2 ^ 56" using mj by (intro power_increasing) simp_all
  finally have "int k * A < 2 ^ 53" by (simp add: mult.commute)
  moreover have "0 \<le> int k * A" using A0 by simp
  ultimately have "\<bar>int k * A\<bar> < 2 ^ 53" by simp
  from double_exact[OF this, of "- int j"] show ?thesis
    unfolding A_def[symmetric] by (simp add: power_int_minus field_simps)
qed

lemma grid_close:
  "double (1 / 10) - 1 / 2 ^ j \<le> rat_of_int \<lfloor>double (1 / 10) * 2 ^ j\<rfloor> / 2 ^ j"
  "rat_of_int \<lfloor>double (1 / 10) * 2 ^ j\<rfloor> / 2 ^ j \<le> double (1 / 10)"
proof -
  let ?x = "double (1 / 10) * 2 ^ j"
  have "(?x - 1) / 2 ^ j \<le> rat_of_int \<lfloor>?x\<rfloor> / 2 ^ j"
    by (intro divide_right_mono) (linarith, simp)
  moreover have "(?x - 1) / 2 ^ j = double (1 / 10) - 1 / 2 ^ j"
    by (simp add: diff_divide_distrib)
  ultimately show "double (1 / 10) - 1 / 2 ^ j \<le> rat_of_int \<lfloor>?x\<rfloor> / 2 ^ j" by simp
  have "rat_of_int \<lfloor>?x\<rfloor> / 2 ^ j \<le> ?x / 2 ^ j"
    by (intro divide_right_mono) (linarith, simp)
  then show "rat_of_int \<lfloor>?x\<rfloor> / 2 ^ j \<le> double (1 / 10)" by simp
qed

lemma foldl_fadd_bounds:
  assumes "\<forall>q\<in>set qs. a \<le> q \<and> q \<le> 1"
      and "k + length qs \<le> 2 ^ m" and "m \<le> 52"
      and "\<And>i. i \<le> 2 ^ m \<Longrightarrow> double (rat_of_nat i * a) = rat_of_nat i * a"
      and "rat_of_nat k * a \<le> r" and "r \<le> rat_of_nat k"
  shows "rat_of_nat (k + length qs) * a \<le> foldl fadd r qs
         \<and> foldl fadd r qs \<le> rat_of_nat (k + length qs)"
  using assms
proof (induction qs arbitrary: k r)
  case Nil
  then show ?case by simp
next
  case (Cons q qs)
  from Cons.prems(1) have q: "a \<le> q" "q \<le> 1" by simp_all
  from Cons.prems(2) have k1: "Suc k \<le> 2 ^ m" by simp
  from Cons.prems(3) have "(2::nat) ^ m \<le> 2 ^ 52" by (intro power_increasing) simp_all
  with k1 have k53: "Suc k < 2 ^ 53" by simp
  have "rat_of_nat (Suc k) * a = rat_of_nat k * a + a" by (simp add: algebra_simps)
  also have "\<dots> \<le> r + q" using Cons.prems(5) q(1) by (rule add_mono)
  finally have "double (rat_of_nat (Suc k) * a) \<le> fadd r q"
    unfolding fadd_def by (rule double_mono)
  then have lo: "rat_of_nat (Suc k) * a \<le> fadd r q"
    by (simp only: Cons.prems(4)[OF k1])
  have "r + q \<le> rat_of_nat (Suc k)" using Cons.prems(6) q(2) by simp
  then have "fadd r q \<le> double (rat_of_nat (Suc k))"
    unfolding fadd_def by (rule double_mono)
  then have hi: "fadd r q \<le> rat_of_nat (Suc k)"
    by (simp only: double_of_nat[OF k53])
  from Cons.prems(1) have rest: "\<forall>q\<in>set qs. a \<le> q \<and> q \<le> 1" by simp
  from Cons.prems(2) have len: "Suc k + length qs \<le> 2 ^ m" by simp
  from Cons.IH[OF rest len Cons.prems(3) Cons.prems(4) lo hi] show ?case by simp
qed

lemma bit_length_pred: "0 < n \<Longrightarrow> n \<le> 2 ^ bit_length (n - 1) \<and> 2 ^ bit_length (n - 1) \<le> 2 * n"
proof -
  assume n: "0 < n"
  from bit_length_upper[of "n - 1"] n have up: "n \<le> 2 ^ bit_length (n - 1)" by simp
  have "2 ^ bit_length (n - 1) \<le> 2 * n"
  proof (cases "n = 1")
    case True
    then show ?thesis by (simp add: bit_length.simps[of 0])
  next
    case False
    with n have "0 < n - 1" by simp
    from bit_length_lower[OF this] show ?thesis by simp
  qed
  with up show ?thesis by simp
qed

lemma refine_content_result:
  assumes gen: "\<forall>xs. length (gen xs) = length xs"
      and ss: "slides data = Some ss" "ss \<noteq> []"
      and fresh: "\<forall>s\<in>set ss. quality_score s = None"
  shows "\<exists>data' final stats qs.
           fst (refine_content gen True device calls data) = Inr data'
           \<and> slides data' = Some final \<and> bert_refinement_stats data' = Some stats
           \<and> qs = score_trace (fragment_scores (map snd (collect_fragments ss))) (map quality_score ss)
           \<and> length qs = length ss
           \<and> (\<forall>q. Some q \<in> set qs \<longrightarrow> q \<le> 1)
           \<and> map quality_score final
                = map (\<lambda>q. Some (max (double (1 / 10)) (dict_get q 1))) qs
           \<and> average_quality stats
                = fdiv (foldl fadd 0 (map (\<lambda>q. max (double (1 / 10)) (dict_get q 1)) qs))
                    (double (rat_of_nat (length ss)))"
proof -
  let ?frags = "collect_fragments ss"
  let ?texts = "map fst ?frags"
  let ?infos = "map snd ?frags"
  let ?actions = "map (\<lambda>info. action (analysis info)) ?infos"
  let ?st0 = "\<lparr> cur_slides = ss, improved_content_slides = {}, improved_bullets_slides = {} \<rparr>"
  let ?clamp = "\<lambda>s. max (double (1 / 10)) (dict_get (quality_score s) 1)"
  have valid: "\<forall>a\<in>set ?actions. a = ''summarize'' \<or> a = ''clarify'' \<or> a = ''grammar'' \<or> a = ''none''"
  proof
    fix a assume "a \<in> set ?actions"
    then obtain t info where "(t, info) \<in> set ?frags" "a = action (analysis info)" by auto
    with collect_fragments_ok[of t info ss] analyze_text_quality_action[of t]
    show "a = ''summarize'' \<or> a = ''clarify'' \<or> a = ''grammar'' \<or> a = ''none''" by auto
  qed
  have "length ?texts = length ?actions" by simp
  from refine_content_batch_total[OF gen this valid, of True calls]
  obtain out where out: "fst (refine_content_batch gen True calls ?texts ?actions) = Inr out"
    "length out = length ?texts" by blast
  have fr: "\<forall>info\<in>set ?infos. frag_ok (shape_of (cur_slides ?st0)) info"
    using collect_fragments_ok[of _ _ ss] by fastforce
  have sc0: "scores_at_most_1 (cur_slides ?st0)"
    using fresh by (simp add: scores_at_most_1_def)
  from apply_fragments_ok[OF fr sc0, of 0 ?texts out] out(2)
  obtain st where st: "apply_fragments ?texts out 0 ?infos ?st0 = Inr st"
    "shape_of (cur_slides st) = shape_of ss" "scores_at_most_1 (cur_slides st)" by auto
  let ?final = "map (\<lambda>s. s\<lparr> quality_score := Some (?clamp s) \<rparr>) (cur_slides st)"
  let ?total = "foldl fadd 0 (map ?clamp (cur_slides st))"
  let ?stats = "\<lparr> total_slides = length ss,
                   improved_content = card (improved_content_slides st),
                   improved_bullets = card (improved_bullets_slides st),
                   improved_speaking = None,
                   total_quality_score = Some ?total,
                   method_used = ascii ''t5-small ('' @ device @ ascii '')'',
                   average_quality = fdiv ?total (double (rat_of_nat (length ss))) \<rparr>"
  let ?qs = "score_trace (fragment_scores ?infos) (map quality_score ss)"
  have len: "length (cur_slides st) = length ss"
    using st(2) by (metis length_map shape_of_def)
  have qs: "map quality_score (cur_slides st) = ?qs"
    using apply_fragments_scores[OF st(1)] by simp
  obtain r c where rc: "refine_content_batch gen True calls ?texts ?actions = (r, c)"
    by (cases "refine_content_batch gen True calls ?texts ?actions")
  with out(1) have r: "r = Inr out" by simp
  have res: "fst (refine_content gen True device calls data)
      = Inr (data\<lparr> slides := Some ?final, bert_refinement_stats := Some ?stats \<rparr>)"
    unfolding refine_content_def Let_def
    using ss rc r st(1) by (simp add: dict_get_def finalize_scores_eq)
  have lenq: "length ?qs = length ss" using qs len by (metis length_map)
  have le1: "\<forall>q. Some q \<in> set ?qs \<longrightarrow> q \<le> 1"
    using st(3) unfolding qs[symmetric] scores_at_most_1_def by auto
  have fin: "map quality_score ?final
               = map (\<lambda>q. Some (max (double (1 / 10)) (dict_get q 1))) ?qs"
    unfolding qs[symmetric] by (simp add: comp_def)
  have tot: "?total = foldl fadd 0 (map (\<lambda>q. max (double (1 / 10)) (dict_get q 1)) ?qs)"
    unfolding qs[symmetric] by (simp add: comp_def)
  show ?thesis
    apply (rule exI[of _ "data\<lparr> slides := Some ?final, bert_refinement_stats := Some ?stats \<rparr>"])
    apply (rule exI[of _ ?final])
    apply (rule exI[of _ ?stats])
    apply (rule exI[of _ ?qs])
    using res lenq le1 fin tot by simp
qed

lemma clarify_13:
  "analyze_text_quality (ascii ''aaaaaaaaaaaaa'')
     = \<lparr> score = 3602879701896397 / 4503599627370496, action = ''clarify'',
         reason = reason_complex_words \<rparr>"
  by (simp add: analyze_text_quality_def ascii_def py_split_def py_isspace_def fsub_def fdiv_def
        double_eval)

lemma long_word_lowering:
  "fsub 1 (3602879701896397 / 4503599627370496) = 900719925474099 / 4503599627370496"
  "fsub 1 (900719925474099 / 4503599627370496) = 3602879701896397 / 4503599627370496"
  "fsub (3602879701896397 / 4503599627370496) (900719925474099 / 4503599627370496)
     = 1351079888211149 / 2251799813685248"
  "fsub (1351079888211149 / 2251799813685248) (900719925474099 / 4503599627370496)
     = 1801439850948199 / 4503599627370496"
  "fsub (1801439850948199 / 4503599627370496) (900719925474099 / 4503599627370496)
     = 225179981368525 / 1125899906842624"
  "fsub (225179981368525 / 1125899906842624) (900719925474099 / 4503599627370496)
     = 1 / 4503599627370496"
  by (simp_all add: fsub_def double_eval)

lemma tenth_sums:
  "fadd 0 (3602879701896397 / 36028797018963968) = 3602879701896397 / 36028797018963968"
  "fadd (3602879701896397 / 36028797018963968) (3602879701896397 / 36028797018963968)
     = 3602879701896397 / 18014398509481984"
  "fadd (3602879701896397 / 18014398509481984) (3602879701896397 / 36028797018963968)
     = 1351079888211149 / 4503599627370496"
  "fadd (1351079888211149 / 4503599627370496) (3602879701896397 / 36028797018963968)
     = 3602879701896397 / 9007199254740992"
  "fadd (3602879701896397 / 9007199254740992) (3602879701896397 / 36028797018963968) = 1 / 2"
  "fadd (1 / 2) (3602879701896397 / 36028797018963968) = 5404319552844595 / 9007199254740992"
  "fdiv (5404319552844595 / 9007199254740992) (double 6) = 7205759403792793 / 72057594037927936"
  by (simp_all add: fadd_def fdiv_def double_eval)

lemma long_word_fragments:
  "fragment_scores (map snd (collect_fragments (replicate 6 long_word_slide)))
   = concat (map (\<lambda>i. replicate 5 (i, 3602879701896397 / 4503599627370496)) [0..<6])"
  by (simp add: collect_fragments_def collect_slide_def long_word_slide_def empty_slide_def
        dict_get_def clarify_13 eval_nat_numeral upt_rec fragment_scores_def)

lemma long_word_trace:
  "score_trace (fragment_scores (map snd (collect_fragments (replicate 6 long_word_slide))))
     (map quality_score (replicate 6 long_word_slide))
   = replicate 6 (Some (1 / 4503599627370496))"
  unfolding long_word_fragments
  by (simp add: long_word_slide_def empty_slide_def dict_get_def long_word_lowering
        eval_nat_numeral upt_rec)

text \<open>
  C3, as stated, fails. In the deck of six slides with five bullets each, every bullet gets
  the score 0.8, so every slide ends at the floor 0.1: the arithmetic mean of the per-slide
  scores is 0.1. The reported average is the float sum of the six scores, 0.6 after
  rounding, divided by 6, which is 0.09999999999999999, the double just below 0.1.
\<close>

theorem refine_content_average_below_floor:
  "final_scores (fst (refine_content id True (ascii ''cpu'') [] long_word_deck))
     = replicate 6 (Some (double (1 / 10)))
   \<and> reported_average (fst (refine_content id True (ascii ''cpu'') [] long_word_deck))
       = Some (7205759403792793 / 72057594037927936)
   \<and> (7205759403792793 / 72057594037927936 :: rat) < 1 / 10
   \<and> (1 / 10 :: rat) \<le> double (1 / 10)"
proof -
  have ne: "replicate 6 long_word_slide \<noteq> []" by simp
  have fresh: "\<forall>s\<in>set (replicate 6 long_word_slide). quality_score s = None"
    by (simp add: long_word_slide_def empty_slide_def)
  have sl: "slides long_word_deck = Some (replicate 6 long_word_slide)"
    by (simp add: long_word_deck_def)
  have gen: "\<forall>xs :: pystr list. length (id xs) = length xs" by simp
  from refine_content_result[OF gen sl ne fresh, of "ascii ''cpu''" "[]"]
  obtain data' final stats where r:
    "fst (refine_content id True (ascii ''cpu'') [] long_word_deck) = Inr data'"
    "slides data' = Some final" "bert_refinement_stats data' = Some stats"
    "map quality_score final
       = map (\<lambda>q. Some (max (double (1 / 10)) (dict_get q 1)))
           (replicate 6 (Some (1 / 4503599627370496)))"
    "average_quality stats
       = fdiv (foldl fadd 0 (map (\<lambda>q. max (double (1 / 10)) (dict_get q 1))
                               (replicate 6 (Some (1 / 4503599627370496)))))
           (double (rat_of_nat (length (replicate 6 long_word_slide))))"
    unfolding long_word_trace by blast
  have fs: "map quality_score final = replicate 6 (Some (double (1 / 10)))"
    unfolding r(4) by (simp add: dict_get_def double_tenth eval_nat_numeral)
  have av: "average_quality stats = 7205759403792793 / 72057594037927936"
    unfolding r(5) by (simp add: dict_get_def double_tenth eval_nat_numeral tenth_sums)
  show ?thesis
    unfolding r(1) final_scores_def reported_average_def
    by (simp add: r(2) r(3) dict_get_def fs av double_tenth)
qed

text \<open>
  C3, amended. For a collaborator that returns as many outputs as it is given inputs, an
  available refiner and a deck of \<open>n\<close> slides, none of which has a quality score yet, with
  \<open>n\<close> at least one and at most \<^verbatim>\<open>2**52\<close>: \<open>refine_content\<close> returns a deck; every slide of
  it has a quality score between the floats 0.1 and 1.0; the reported average quality is
  the float quotient of the float sum of these scores, taken in the order of the slides, by
  the number of slides; it is at most 1.0 and at least the float 0.1 minus
  \<^verbatim>\<open>n * 2**(-55)\<close>, the rounding error that the sum can collect.
\<close>

theorem refine_content_quality_bounds:
  assumes gen: "\<forall>xs. length (gen xs) = length xs"
      and ss: "slides data = Some ss" "ss \<noteq> []"
      and fresh: "\<forall>s\<in>set ss. quality_score s = None"
      and small: "length ss \<le> 2 ^ 52"
  shows "\<exists>data' final stats.
           fst (refine_content gen True device calls data) = Inr data'
           \<and> slides data' = Some final \<and> bert_refinement_stats data' = Some stats
           \<and> length final = length ss
           \<and> (\<forall>s\<in>set final. \<exists>q. quality_score s = Some q \<and> double (1 / 10) \<le> q \<and> q \<le> 1)
           \<and> average_quality stats
               = fdiv (foldl fadd 0 (map (\<lambda>s. the (quality_score s)) final))
                   (double (rat_of_nat (length final)))
           \<and> double (1 / 10) - rat_of_nat (length ss) / 2 ^ 55 \<le> average_quality stats
           \<and> average_quality stats \<le> 1"
proof -
  let ?clamp = "\<lambda>q. max (double (1 / 10)) (dict_get q 1)"
  from refine_content_result[OF gen ss fresh, of device calls]
  obtain data' final stats qs where r:
    "fst (refine_content gen True device calls data) = Inr data'"
    "slides data' = Some final" "bert_refinement_stats data' = Some stats"
    "length qs = length ss" "\<forall>q. Some q \<in> set qs \<longrightarrow> q \<le> 1"
    "map quality_score final = map (\<lambda>q. Some (?clamp q)) qs"
    "average_quality stats = fdiv (foldl fadd 0 (map ?clamp qs)) (double (rat_of_nat (length ss)))"
    by blast
  let ?n = "length ss"
  let ?total = "foldl fadd 0 (map ?clamp qs)"
  have len: "length final = ?n"
    using r(6) r(4) by (metis length_map)
  have cl: "double (1 / 10) \<le> ?clamp q \<and> ?clamp q \<le> 1" if "q \<in> set qs" for q
  proof (cases q)
    case None
    then show ?thesis by (simp add: dict_get_def double_tenth)
  next
    case (Some v)
    with that r(5) have "v \<le> 1" by simp
    with Some show ?thesis by (simp add: dict_get_def double_tenth)
  qed
  have each: "\<forall>s\<in>set final. \<exists>q. quality_score s = Some q \<and> double (1 / 10) \<le> q \<and> q \<le> 1"
  proof
    fix s assume "s \<in> set final"
    then have "quality_score s \<in> set (map quality_score final)" by simp
    then obtain q where "q \<in> set qs" "quality_score s = Some (?clamp q)"
      unfolding r(6) by auto
    with cl[of q] show "\<exists>q. quality_score s = Some q \<and> double (1 / 10) \<le> q \<and> q \<le> 1"
      by blast
  qed
  have "map (\<lambda>s. the (quality_score s)) final = map the (map quality_score final)"
    by (simp add: comp_def)
  also have "\<dots> = map ?clamp qs" unfolding r(6) by (simp add: comp_def)
  finally have the_scores: "map (\<lambda>s. the (quality_score s)) final = map ?clamp qs" .
  have mean: "average_quality stats
      = fdiv (foldl fadd 0 (map (\<lambda>s. the (quality_score s)) final))
          (double (rat_of_nat (length final)))"
    unfolding the_scores len by (rule r(7))
  define m where "m = bit_length (?n - 1)"
  define j where "j = 56 - m"
  define a where "a = rat_of_int \<lfloor>double (1 / 10) * 2 ^ j\<rfloor> / 2 ^ j"
  from ss(2) have n0: "0 < ?n" by simp
  from bit_length_pred[OF n0] have nm: "?n \<le> 2 ^ m" "2 ^ m \<le> 2 * ?n"
    by (simp_all add: m_def)
  from small n0 have "?n - 1 < 2 ^ 52" by simp
  then have m52: "m \<le> 52" unfolding m_def by (rule bit_length_le)
  then have mj: "m + j = 56" by (simp add: j_def)
  then have mj': "m + j \<le> 56" by simp
  have grid: "double (rat_of_nat i * a) = rat_of_nat i * a" if "i \<le> 2 ^ m" for i
    unfolding a_def using that mj' by (rule grid_exact)
  have all: "\<forall>q\<in>set (map ?clamp qs). a \<le> q \<and> q \<le> 1"
    using cl grid_close(2)[of j] unfolding a_def by fastforce
  from nm(1) r(4) have lm: "0 + length (map ?clamp qs) \<le> 2 ^ m" by simp
  from foldl_fadd_bounds[OF all lm m52 grid, of 0] r(4)
  have tot: "rat_of_nat ?n * a \<le> ?total" "?total \<le> rat_of_nat ?n"
    by simp_all
  from n0 have pos: "0 < rat_of_nat ?n" by simp
  from small have "?n < 2 ^ 53" by simp
  then have dn: "double (rat_of_nat ?n) = rat_of_nat ?n" by (rule double_of_nat)
  have avg: "average_quality stats = double (?total / rat_of_nat ?n)"
    unfolding r(7) dn fdiv_def ..
  from tot(1) pos have "a \<le> ?total / rat_of_nat ?n"
    by (simp add: pos_le_divide_eq mult.commute)
  then have "double a \<le> double (?total / rat_of_nat ?n)"
    by (rule double_mono)
  moreover have "double a = a"
    using grid[of 1] by simp
  ultimately have a_le: "a \<le> average_quality stats"
    unfolding avg by simp
  have "(2::rat) ^ 56 = 2 ^ m * 2 ^ j" unfolding mj[symmetric] by (rule power_add)
  also have "(2::rat) ^ m = rat_of_nat (2 ^ m)" by simp
  also have "rat_of_nat (2 ^ m) \<le> rat_of_nat (2 * ?n)" using nm(2) by (rule of_nat_mono)
  finally have "(2::rat) ^ 56 \<le> rat_of_nat (2 * ?n) * 2 ^ j" by simp
  then have "(2::rat) ^ 55 \<le> rat_of_nat ?n * 2 ^ j" by simp
  then have "1 / 2 ^ j \<le> rat_of_nat ?n / 2 ^ 55"
    by (simp add: field_simps)
  with grid_close(1)[of j] a_le
  have lo: "double (1 / 10) - rat_of_nat ?n / 2 ^ 55 \<le> average_quality stats"
    unfolding a_def by linarith
  from tot(2) pos have "?total / rat_of_nat ?n \<le> 1"
    by (simp add: pos_divide_le_eq)
  then have hi: "average_quality stats \<le> 1" unfolding avg by (rule double_le_1)
  show ?thesis
    apply (rule exI[of _ data'])
    apply (rule exI[of _ final])
    apply (rule exI[of _ stats])
    using r(1,2,3) len each mean lo hi by simp
qed

theorem refine_content_quality_bounds_witness:
  "slides long_word_deck = Some (replicate 6 long_word_slide)
   \<and> replicate 6 long_word_slide \<noteq> []
   \<and> quality_score long_word_slide = None
   \<and> length (replicate 6 long_word_slide) \<le> 2 ^ 52
   \<and> (\<exists>data' final stats.
         fst (refine_content id True (ascii ''cpu'') [] long_word_deck) = Inr data'
         \<and> slides data' = Some final \<and> bert_refinement_stats data' = Some stats
         \<and> length final = 6
         \<and> average_quality stats
             = fdiv (foldl fadd 0 (map (\<lambda>s. the (quality_score s)) final))
                 (double (rat_of_nat (length final)))
         \<and> double (1 / 10) - 6 / 2 ^ 55 \<le> average_quality stats
         \<and> average_quality stats \<le> 1)"
proof -
  have none: "quality_score long_word_slide = None"
    by (simp add: long_word_slide_def empty_slide_def)
  have sl: "slides long_word_deck = Some (replicate 6 long_word_slide)"
    by (simp add: long_word_deck_def)
  from refine_content_quality_bounds
         [of id long_word_deck "replicate 6 long_word_slide" "ascii ''cpu''" "[]"]
       none sl
  show ?thesis by auto
qed

lemma zip_fst_map_snd:
  "zip (map fst xs) (map f (map snd xs)) = map (\<lambda>(t, i). (t, f i)) xs"
  by (induction xs) auto

lemma refine_content_calls:
  "snd (refine_content gen available device calls data) = calls
   \<or> snd (refine_content gen available device calls data)
       = snd (refine_content_batch gen available calls
                (map fst (collect_fragments (dict_get (slides data) [])))
                (map (\<lambda>info. action (analysis info))
                   (map snd (collect_fragments (dict_get (slides data) [])))))"
  unfolding refine_content_def Let_def
  by (simp split: prod.splits sum.splits)

text \<open>
  C5. One invocation of \<open>refine_content\<close> sends at most one request to the generative
  collaborator, whatever the number of slides and bullets: the list of requests grows by at
  most one entry, and that entry consists of the prefixed texts of exactly the fragments
  whose action is not none. The same holds for \<open>refine_content_batch\<close> on any texts and
  actions, and in its result every fragment whose action is none stands unchanged at its
  original position.
\<close>

theorem refine_content_single_batched_call:
  "(\<exists>batch. snd (refine_content gen available device calls data) = calls @ batch
      \<and> length batch \<le> 1
      \<and> (\<forall>inputs\<in>set batch.
            inputs = map (\<lambda>(t, info). the (map_of prefixes (action (analysis info))) @ t)
                       (filter (\<lambda>(t, info). action (analysis info) \<noteq> ''none'')
                          (collect_fragments (dict_get (slides data) [])))))
   \<and> (\<exists>batch. snd (refine_content_batch gen available calls texts actions) = calls @ batch
        \<and> length batch \<le> 1
        \<and> (\<forall>inputs\<in>set batch.
              inputs = map (\<lambda>(t, a). the (map_of prefixes a) @ t)
                         (filter (\<lambda>(t, a). a \<noteq> ''none'') (zip texts actions))))
   \<and> (\<forall>out i. fst (refine_content_batch gen available calls texts actions) = Inr out
          \<and> i < length texts \<and> i < length actions \<and> actions ! i = ''none''
          \<longrightarrow> out ! i = texts ! i)"
proof (intro conjI)
  have batch: "\<exists>batch.
        snd (refine_content_batch gen available calls texts actions) = calls @ batch
        \<and> length batch \<le> 1
        \<and> (\<forall>inputs\<in>set batch.
              inputs = map (\<lambda>(t, a). the (map_of prefixes a) @ t)
                         (filter (\<lambda>(t, a). a \<noteq> ''none'') (zip texts actions)))"
    for texts actions
  proof -
    from refine_content_batch_calls[of gen available calls texts actions]
    obtain b where b: "snd (refine_content_batch gen available calls texts actions) = calls @ b"
      "length b \<le> 1" "\<forall>inputs\<in>set b. batch_inputs texts actions = Inr inputs"
      by blast
    from b(3) have "\<forall>inputs\<in>set b.
              inputs = map (\<lambda>(t, a). the (map_of prefixes a) @ t)
                         (filter (\<lambda>(t, a). a \<noteq> ''none'') (zip texts actions))"
      using batch_inputs_Inr by blast
    with b(1,2) show ?thesis by blast
  qed
  show "\<exists>batch. snd (refine_content_batch gen available calls texts actions) = calls @ batch
        \<and> length batch \<le> 1
        \<and> (\<forall>inputs\<in>set batch.
              inputs = map (\<lambda>(t, a). the (map_of prefixes a) @ t)
                         (filter (\<lambda>(t, a). a \<noteq> ''none'') (zip texts actions)))"
    by (rule batch)
  let ?frags = "collect_fragments (dict_get (slides data) [])"
  let ?sub = "map (\<lambda>(t, info). the (map_of prefixes (action (analysis info))) @ t)
                (filter (\<lambda>(t, info). action (analysis info) \<noteq> ''none'') ?frags)"
  have sub: "map (\<lambda>(t, a). the (map_of prefixes a) @ t)
               (filter (\<lambda>(t, a). a \<noteq> ''none'')
                  (zip (map fst ?frags) (map (\<lambda>info. action (analysis info)) (map snd ?frags))))
             = ?sub"
    unfolding zip_fst_map_snd
    by (simp add: filter_map comp_def case_prod_unfold)
  from batch[of "map fst ?frags" "map (\<lambda>info. action (analysis info)) (map snd ?frags)"]
  obtain b where b: "snd (refine_content_batch gen available calls (map fst ?frags)
                        (map (\<lambda>info. action (analysis info)) (map snd ?frags))) = calls @ b"
      "length b \<le> 1" "\<forall>inputs\<in>set b. inputs = ?sub"
    unfolding sub by blast
  from refine_content_calls[of gen available device calls data]
  show "\<exists>batch. snd (refine_content gen available device calls data) = calls @ batch
      \<and> length batch \<le> 1 \<and> (\<forall>inputs\<in>set batch. inputs = ?sub)"
  proof
    assume "snd (refine_content gen available device calls data) = calls"
    then show ?thesis by (intro exI[of _ "[]"]) simp
  next
    assume "snd (refine_content gen available device calls data)
       = snd (refine_content_batch gen available calls (map fst ?frags)
                (map (\<lambda>info. action (analysis info)) (map snd ?frags)))"
    with b show ?thesis by (intro exI[of _ b]) simp
  qed
  show "\<forall>out i. fst (refine_content_batch gen available calls texts actions) = Inr out
          \<and> i < length texts \<and> i < length actions \<and> actions ! i = ''none''
          \<longrightarrow> out ! i = texts ! i"
  proof (intro allI impI, elim conjE)
    fix out i
    assume res: "fst (refine_content_batch gen available calls texts actions) = Inr out"
       and i: "i < length texts" "i < length actions" "actions ! i = ''none''"
    from res consider "out = texts"
      | inputs where "map_back texts (gen inputs) 0 0 actions = Inr out"
      by (auto simp: refine_content_batch_def split: if_splits sum.splits)
    then show "out ! i = texts ! i"
    proof cases
      case 1
      then show ?thesis by simp
    next
      case 2
      from map_back_none[OF 2 i(2) i(3)] show ?thesis by simp
    qed
  qed
qed

theorem refine_content_single_batched_call_witness:
  "fst (refine_content_batch id True [] [ascii ''ok'', ascii ''x''] [''none'', ''clarify''])
     = Inr [ascii ''ok'', ascii ''make it clear: x'']
   \<and> (0::nat) < length [ascii ''ok'', ascii ''x'']
   \<and> (0::nat) < length [''none'', ''clarify'']
   \<and> [''none'', ''clarify''] ! 0 = ''none''
   \<and> [ascii ''ok'', ascii ''make it clear: x''] ! 0 = [ascii ''ok'', ascii ''x''] ! 0
   \<and> snd (refine_content_batch id True [] [ascii ''ok'', ascii ''x''] [''none'', ''clarify''])
       = [] @ [[ascii ''make it clear: x'']]"
  using refine_content_single_batched_call
          [of id True "ascii ''cpu''" "[]" "\<lparr> slides = None, bert_refinement_stats = None \<rparr>"
              "[ascii ''ok'', ascii ''x'']" "[''none'', ''clarify'']"]
  by (simp add: refine_content_batch_def prefixes_def ascii_def)

lemma collect_fragments_no_text:
  assumes "\<forall>s\<in>set ss. content s = None \<and> bullet_points s = None"
  shows "collect_fragments ss = []"
proof -
  have "collect_slide i s = []" if "(i, s) \<in> set (enumerate 0 ss)" for i s
  proof -
    from that have "s \<in> set ss" by (auto simp: in_set_enumerate_eq)
    with assms show ?thesis by (simp add: collect_slide_def dict_get_def)
  qed
  then show ?thesis by (auto simp: collect_fragments_def)
qed

lemma foldl_fadd_ones:
  "k + n < 2 ^ 53 \<Longrightarrow> foldl fadd (rat_of_nat k) (replicate n 1) = rat_of_nat (k + n)"
proof (induction n arbitrary: k)
  case 0
  then show ?case by simp
next
  case (Suc n)
  from Suc.prems have "Suc k < 2 ^ 53" by simp
  then have "double (rat_of_nat (Suc k)) = rat_of_nat (Suc k)" by (rule double_of_nat)
  moreover have "rat_of_nat k + 1 = rat_of_nat (Suc k)" by simp
  ultimately have "fadd (rat_of_nat k) 1 = rat_of_nat (Suc k)"
    unfolding fadd_def by (simp only:)
  with Suc.IH[of "Suc k"] Suc.prems show ?case by simp
qed

lemma finalize_scores_fresh:
  "\<forall>s\<in>set ss. quality_score s = None \<Longrightarrow>
   finalize_scores ss running
     = (map (\<lambda>s. s\<lparr> quality_score := Some 1 \<rparr>) ss,
        foldl fadd running (replicate (length ss) 1))"
  by (induction ss arbitrary: running) (simp_all add: Let_def dict_get_def double_tenth)

text \<open>
  C10, as stated, fails for the deck without slides: \<open>refine_content\<close> returns it as it is,
  so no statistics are attached and no average quality of 1.0 is reported.
\<close>

theorem refine_content_empty_deck:
  "refine_content id True (ascii ''cpu'') [] \<lparr> slides = Some [], bert_refinement_stats = None \<rparr>
     = (Inr \<lparr> slides = Some [], bert_refinement_stats = None \<rparr>, [])"
  by (simp add: refine_content_def dict_get_def)

text \<open>
  C10, amended. For every deck with at least one slide whose slides have no
  \<^verbatim>\<open>content\<close>, no \<^verbatim>\<open>bullet_points\<close> and no \<^verbatim>\<open>quality_score\<close> key, an available
  refiner collects no fragment and sends no request to the collaborator; the returned deck
  differs from the given one only in that every slide has quality score 1 (so no text field
  changes and no refined flag or suggestion list is added) and in the attached statistics,
  which report 0 improved contents, 0 improved bullets and average quality 1. The slide
  count is below \<^verbatim>\<open>2**53\<close>, up to which the float sum of the scores 1.0 is the exact
  count.
\<close>

theorem refine_content_outline_only:
  assumes ss: "slides data = Some ss" "ss \<noteq> []"
      and outline: "\<forall>s\<in>set ss. content s = None \<and> bullet_points s = None \<and> quality_score s = None"
      and count: "length ss < 2 ^ 53"
  shows "refine_content gen True device calls data
     = (Inr (data\<lparr> slides := Some (map (\<lambda>s. s\<lparr> quality_score := Some 1 \<rparr>) ss),
                  bert_refinement_stats :=
                    Some \<lparr> total_slides = length ss, improved_content = 0, improved_bullets = 0,
                           improved_speaking = None,
                           total_quality_score = Some (rat_of_nat (length ss)),
                           method_used = ascii ''t5-small ('' @ device @ ascii '')'',
                           average_quality = 1 \<rparr> \<rparr>),
        calls)"
proof -
  from outline have cf: "collect_fragments ss = []"
    by (intro collect_fragments_no_text) simp
  from outline have fin: "finalize_scores ss 0
      = (map (\<lambda>s. s\<lparr> quality_score := Some 1 \<rparr>) ss, rat_of_nat (length ss))"
    using finalize_scores_fresh[of ss 0] foldl_fadd_ones[of 0 "length ss"] count by simp
  from ss(2) have "rat_of_nat (length ss) \<noteq> 0" by simp
  then have avg: "fdiv (rat_of_nat (length ss)) (double (rat_of_nat (length ss))) = 1"
    by (simp add: fdiv_def double_of_nat[OF count] double_1)
  show ?thesis
    unfolding refine_content_def Let_def
    using ss by (simp add: dict_get_def cf fin avg refine_content_batch_def)
qed

theorem refine_content_outline_only_witness:
  "slides \<lparr> slides = Some [empty_slide\<lparr> slide_content := Some [ascii ''point''] \<rparr>],
            bert_refinement_stats = None \<rparr>
     = Some [empty_slide\<lparr> slide_content := Some [ascii ''point''] \<rparr>]
   \<and> content (empty_slide\<lparr> slide_content := Some [ascii ''point''] \<rparr>) = None
   \<and> bullet_points (empty_slide\<lparr> slide_content := Some [ascii ''point''] \<rparr>) = None
   \<and> quality_score (empty_slide\<lparr> slide_content := Some [ascii ''point''] \<rparr>) = None
   \<and> length [empty_slide\<lparr> slide_content := Some [ascii ''point''] \<rparr>] < 2 ^ 53
   \<and> refine_content id True (ascii ''cpu'') []
        \<lparr> slides = Some [empty_slide\<lparr> slide_content := Some [ascii ''point''] \<rparr>],
          bert_refinement_stats = None \<rparr>
       = (Inr \<lparr> slides = Some [empty_slide\<lparr> slide_content := Some [ascii ''point''],
                                            quality_score := Some 1 \<rparr>],
                bert_refinement_stats =
                  Some \<lparr> total_slides = 1, improved_content = 0, improved_bullets = 0,
                         improved_speaking = None, total_quality_score = Some 1,
                         method_used = ascii ''t5-small ('' @ ascii ''cpu'' @ ascii '')'',
                         average_quality = 1 \<rparr> \<rparr>,
          [])"
  using refine_content_outline_only
          [of "\<lparr> slides = Some [empty_slide\<lparr> slide_content := Some [ascii ''point''] \<rparr>],
                  bert_refinement_stats = None \<rparr>"
              "[empty_slide\<lparr> slide_content := Some [ascii ''point''] \<rparr>]"
              id "ascii ''cpu''" "[]"]
  by (simp add: empty_slide_def)

text \<open>
  C2, as stated, fails for the T5 refiner whose \<^verbatim>\<open>available\<close> flag is false: it returns
  the deck as it is, so the slide has neither the quality score 0.8 nor the refined flag, and
  no statistics are attached.
\<close>

theorem refine_content_unavailable_no_stamp:
  "refine_content id False (ascii ''cpu'') []
     \<lparr> slides = Some [empty_slide], bert_refinement_stats = None \<rparr>
     = (Inr \<lparr> slides = Some [empty_slide], bert_refinement_stats = None \<rparr>, [])
   \<and> quality_score empty_slide = None
   \<and> bert_refined empty_slide = None"
  by (simp add: refine_content_def empty_slide_def)

text \<open>
  C2, amended. The T5 refiner whose \<^verbatim>\<open>available\<close> flag is false returns the deck
  unchanged and sends nothing to the collaborator. The lightweight fallback refiner leaves
  every other field of every slide unchanged, sets the quality score of every slide to the
  float 0.8 and its refined flag to false, and attaches statistics with method
  \<^verbatim>\<open>rule-based\<close>, the slide count and average quality 0.8.
\<close>

theorem unavailable_refiner_behaviour:
  assumes "slides data = Some ss"
  shows "refine_content gen False device calls data = (Inr data, calls)
         \<and> slides (fst (fallback_refine_content fallback_stats data))
             = Some (map (\<lambda>s. s\<lparr> quality_score := Some (double (8 / 10)),
                                   bert_refined := Some False \<rparr>) ss)
         \<and> (\<exists>stats. bert_refinement_stats (fst (fallback_refine_content fallback_stats data))
                       = Some stats
                     \<and> method_used stats = ascii ''rule-based''
                     \<and> total_slides stats = length ss
                     \<and> average_quality stats = double (8 / 10))"
  using assms
  by (simp add: refine_content_def fallback_refine_content_def fallback_stats_def Let_def
        dict_get_def)

theorem unavailable_refiner_behaviour_witness:
  "slides \<lparr> slides = Some [empty_slide\<lparr> slide_content := Some [ascii ''point''] \<rparr>],
            bert_refinement_stats = None \<rparr>
     = Some [empty_slide\<lparr> slide_content := Some [ascii ''point''] \<rparr>]
   \<and> slides (fst (fallback_refine_content fallback_stats
        \<lparr> slides = Some [empty_slide\<lparr> slide_content := Some [ascii ''point''] \<rparr>],
          bert_refinement_stats = None \<rparr>))
       = Some [empty_slide\<lparr> slide_content := Some [ascii ''point''],
                             quality_score := Some (double (8 / 10)),
                             bert_refined := Some False \<rparr>]"
  using unavailable_refiner_behaviour
          [of "\<lparr> slides = Some [empty_slide\<lparr> slide_content := Some [ascii ''point''] \<rparr>],
                  bert_refinement_stats = None \<rparr>"
              "[empty_slide\<lparr> slide_content := Some [ascii ''point''] \<rparr>]"
              id "ascii ''cpu''" "[]"]
  by (simp add: empty_slide_def)

lemma refine_content_one_content_slide:
  assumes c: "content s = Some c" "c \<noteq> []" and nb: "bullet_points s = None"
      and an: "analyze_text_quality c = \<lparr> score = sc, action = ''clarify'', reason = R \<rparr>"
      and g: "gen [ascii ''make it clear: '' @ c] = [r]"
      and ne: "py_strip c \<noteq> py_strip r"
  shows "\<exists>s' st calls'.
           refine_content gen True device calls \<lparr> slides = Some [s], bert_refinement_stats = old_stats \<rparr>
             = (Inr \<lparr> slides = Some [s'], bert_refinement_stats = st \<rparr>, calls')
           \<and> content s' = Some r \<and> bullet_points s' = None \<and> original_content s' = Some c"
proof -
  let ?info = "\<lparr> slide_index = 0, field = ''content'', bullet_index = None,
                 analysis = \<lparr> score = sc, action = ''clarify'', reason = R \<rparr> \<rparr>"
  have cf: "collect_fragments [s] = [(c, ?info)]"
    by (simp add: collect_fragments_def collect_slide_def dict_get_def c nb an)
  have bt: "refine_content_batch gen True calls [c] [''clarify'']
              = (Inr [r], calls @ [[ascii ''make it clear: '' @ c]])"
    by (simp add: refine_content_batch_def prefixes_def g)
  obtain st1 where af: "apply_fragments [c] [r] 0 [?info]
        \<lparr> cur_slides = [s], improved_content_slides = {}, improved_bullets_slides = {} \<rparr> = Inr st1"
      and sl: "\<exists>s1. cur_slides st1 = [s1] \<and> content s1 = Some r \<and> bullet_points s1 = None
                    \<and> original_content s1 = Some c"
    by (simp add: apply_fragment_def Let_def ne nb)
  from sl obtain s1 where s1: "cur_slides st1 = [s1]" "content s1 = Some r"
    "bullet_points s1 = None" "original_content s1 = Some c" by blast
  show ?thesis
    unfolding refine_content_def Let_def
    using s1 by (auto simp: dict_get_def cf bt af Let_def simp del: apply_fragments.simps)
qed

lemma clarify_rewritten:
  "analyze_text_quality (ascii ''a make it clear: aaaaaaaaaaaaa'')
     = \<lparr> score = 3602879701896397 / 4503599627370496, action = ''clarify'',
         reason = reason_complex_words \<rparr>"
  by (simp add: analyze_text_quality_def ascii_def py_split_def py_isspace_def fsub_def fdiv_def
        double_eval)

lemma strip_differs_1:
  "py_strip (ascii ''aaaaaaaaaaaaa'') \<noteq> py_strip (ascii ''a make it clear: aaaaaaaaaaaaa'')"
  by (simp add: py_strip_def ascii_def py_isspace_def)

lemma strip_differs_2:
  "py_strip (ascii ''a make it clear: aaaaaaaaaaaaa'')
     \<noteq> py_strip (ascii ''a make it clear: a make it clear: aaaaaaaaaaaaa'')"
  by (simp add: py_strip_def ascii_def py_isspace_def)

text \<open>
  C4. The claim: after two calls of \<open>refine_content\<close> in succession, with a deterministic
  collaborator, \<^verbatim>\<open>original_content\<close> still holds the text from before the first rewrite.
  Here the collaborator puts \<^verbatim>\<open>a \<close> in front of every input and the deck has one slide
  with the content \<^verbatim>\<open>aaaaaaaaaaaaa\<close>. After the first call \<^verbatim>\<open>original_content\<close> is that
  text and the content is \<^verbatim>\<open>a make it clear: aaaaaaaaaaaaa\<close>; after the second call
  \<^verbatim>\<open>original_content\<close> is the already refined \<^verbatim>\<open>a make it clear: aaaaaaaaaaaaa\<close>. The
  content branch assigns \<^verbatim>\<open>original_content\<close> on every change, whereas the bullet branch
  writes \<^verbatim>\<open>original_bullet_points\<close> only when the key is absent.
\<close>

theorem refine_content_twice_original_content:
  "\<exists>s1 st1 k1 s2 st2 k2.
     refine_content (map ((@) (ascii ''a ''))) True (ascii ''cpu'') []
        \<lparr> slides = Some [empty_slide\<lparr> content := Some (ascii ''aaaaaaaaaaaaa'') \<rparr>],
          bert_refinement_stats = None \<rparr>
       = (Inr \<lparr> slides = Some [s1], bert_refinement_stats = st1 \<rparr>, k1)
     \<and> original_content s1 = Some (ascii ''aaaaaaaaaaaaa'')
     \<and> content s1 = Some (ascii ''a make it clear: aaaaaaaaaaaaa'')
     \<and> refine_content (map ((@) (ascii ''a ''))) True (ascii ''cpu'') k1
          \<lparr> slides = Some [s1], bert_refinement_stats = st1 \<rparr>
         = (Inr \<lparr> slides = Some [s2], bert_refinement_stats = st2 \<rparr>, k2)
     \<and> original_content s2 = Some (ascii ''a make it clear: aaaaaaaaaaaaa'')"
proof -
  let ?gen = "map ((@) (ascii ''a ''))"
  let ?c0 = "ascii ''aaaaaaaaaaaaa''"
  let ?r1 = "ascii ''a make it clear: aaaaaaaaaaaaa''"
  let ?r2 = "ascii ''a make it clear: a make it clear: aaaaaaaaaaaaa''"
  have g1: "?gen [ascii ''make it clear: '' @ ?c0] = [?r1]" by (simp add: ascii_def)
  have g2: "?gen [ascii ''make it clear: '' @ ?r1] = [?r2]" by (simp add: ascii_def)
  have ne0: "?c0 \<noteq> []" "?r1 \<noteq> []" by (simp_all add: ascii_def)
  have first: "\<exists>s' st calls'.
      refine_content ?gen True (ascii ''cpu'') []
        \<lparr> slides = Some [empty_slide\<lparr> content := Some ?c0 \<rparr>], bert_refinement_stats = None \<rparr>
       = (Inr \<lparr> slides = Some [s'], bert_refinement_stats = st \<rparr>, calls')
      \<and> content s' = Some ?r1 \<and> bullet_points s' = None \<and> original_content s' = Some ?c0"
    by (rule refine_content_one_content_slide
               [where s = "empty_slide\<lparr> content := Some ?c0 \<rparr>" and c = "?c0" and r = "?r1"
                  and gen = "?gen" and R = reason_complex_words and device = "ascii ''cpu''"
                  and calls = "[]" and old_stats = None,
                OF _ ne0(1) _ clarify_13 g1 strip_differs_1])
       (simp_all add: empty_slide_def)
  then obtain s1 st1 k1 where one:
    "refine_content ?gen True (ascii ''cpu'') []
        \<lparr> slides = Some [empty_slide\<lparr> content := Some ?c0 \<rparr>], bert_refinement_stats = None \<rparr>
       = (Inr \<lparr> slides = Some [s1], bert_refinement_stats = st1 \<rparr>, k1)"
    "content s1 = Some ?r1" "bullet_points s1 = None" "original_content s1 = Some ?c0"
    by blast
  from refine_content_one_content_slide
         [where s = s1 and c = "?r1" and r = "?r2" and gen = "?gen"
            and R = reason_complex_words and device = "ascii ''cpu''" and calls = k1
            and old_stats = st1,
          OF one(2) ne0(2) one(3) clarify_rewritten g2 strip_differs_2]
  obtain s2 st2 k2 where two:
    "refine_content ?gen True (ascii ''cpu'') k1
        \<lparr> slides = Some [s1], bert_refinement_stats = st1 \<rparr>
       = (Inr \<lparr> slides = Some [s2], bert_refinement_stats = st2 \<rparr>, k2)"
    "original_content s2 = Some ?r1"
    by blast
  from one two show ?thesis by blast
qed

end
